theory Spec2Isabelle
  imports Complex_Main "HOL-Library.Product_Lexorder"
begin

section \<open>The character-level lemmatizer of flair (models/lemmatizer\_model.py)\<close>

text \<open>
  The development embeds \<^verbatim>\<open>Lemmatizer.words_to_char_indices\<close>,
  \<^verbatim>\<open>Lemmatizer.encode\<close>, \<^verbatim>\<open>Lemmatizer.decode\<close>,
  \<^verbatim>\<open>Lemmatizer.predict\<close> (both the tensor-batched and the per-token beam search)
  and \<^verbatim>\<open>Lemmatizer._get_state_dict\<close>.

  Tensors are lists (a matrix is a list of rows). The learned layers (embeddings, GRUs,
  linear maps) are function-valued fields of the model record: their weights are data, not
  code. Softmax, the logarithm and the cross-entropy are written out over the reals;
  floating-point rounding is not modelled. Where the code goes on with a NaN or an infinite
  quotient (the logarithm of a masked probability, a division by \<open>max_length = 0\<close>), whose
  later comparisons depend on the floating-point order, the model stops with the value
  \<open>NonFinite\<close> instead. The order in which \<^verbatim>\<open>torch.topk\<close> returns equal entries
  is not fixed by torch; it is a parameter.
\<close>

subsection \<open>Errors, vectors and scores\<close>

datatype error =
  ValueError | RuntimeError | IndexError | ZeroDivisionError | NameError | TypeError | NonFinite

type_synonym vec = "real list"

text \<open>
  An entry of a score tensor: a finite real or \<open>-inf\<close> (written by the batched search over
  the log-probability of a finalized candidate; also the logarithm of probability zero).
\<close>

datatype lp = MInf | Fin real

fun lp_add :: "lp \<Rightarrow> lp \<Rightarrow> lp" where
  "lp_add (Fin x) (Fin y) = Fin (x + y)"
| "lp_add _ _ = MInf"

text \<open>Division of a score by a sequence length; it is only applied to a positive
  length.\<close>

fun lp_div :: "lp \<Rightarrow> nat \<Rightarrow> lp" where
  "lp_div (Fin x) n = Fin (x / real n)"
| "lp_div MInf n = MInf"

text \<open>The order in which scores are ranked: \<open>-inf\<close> below every real.\<close>

fun lp_key :: "lp \<Rightarrow> nat \<times> real" where
  "lp_key MInf = (0, 0)"
| "lp_key (Fin x) = (1, x)"

text \<open>\<^verbatim>\<open>torch.log\<close> of a probability; it is only applied to a probability that is
  not negative.\<close>

definition torch_log :: "real \<Rightarrow> lp" where
  "torch_log p = (if p \<le> 0 then MInf else Fin (ln p))"

definition softmax :: "vec \<Rightarrow> vec" where
  "softmax l = map (\<lambda>x. exp x / (\<Sum>y\<leftarrow>l. exp y)) l"

text \<open>\<^verbatim>\<open>nn.CrossEntropyLoss\<close> of one row of logits against one target index.\<close>

definition cross_entropy :: "vec \<Rightarrow> nat \<Rightarrow> real" where
  "cross_entropy l t = - ln (softmax l ! t)"

subsection \<open>Sorting and top-k\<close>

text \<open>
  \<^verbatim>\<open>sorted(xs, key=f, reverse=True)\<close>: stable, so elements with equal keys keep
  their original order.
\<close>

fun insort_desc :: "('a \<Rightarrow> 'k::linorder) \<Rightarrow> 'a \<Rightarrow> 'a list \<Rightarrow> 'a list" where
  "insort_desc f x [] = [x]"
| "insort_desc f x (y # ys) = (if f y \<le> f x then x # y # ys else y # insort_desc f x ys)"

definition sorted_desc :: "('a \<Rightarrow> 'k::linorder) \<Rightarrow> 'a list \<Rightarrow> 'a list" where
  "sorted_desc f xs = foldr (insort_desc f) xs []"

text \<open>
  \<^verbatim>\<open>t.topk(k)\<close> along the last dimension of one row: the \<open>k\<close> largest entries in
  descending order, each with its index; a RuntimeError when \<open>k\<close> exceeds the row length.
  Which of several equal entries comes first is left open by torch: \<open>order xs\<close> lists the
  positions of the row \<open>xs\<close> in the order in which equal entries are preferred.
\<close>

definition topk ::
  "('a list \<Rightarrow> nat list) \<Rightarrow> ('a \<Rightarrow> 'k::linorder) \<Rightarrow> nat \<Rightarrow> 'a list \<Rightarrow> error + ('a \<times> nat) list" where
  "topk order key k xs =
     (if length xs < k then Inl RuntimeError
      else Inr (take k (sorted_desc (\<lambda>p. key (fst p)) (map (\<lambda>i. (xs ! i, i)) (order xs)))))"

text \<open>An order of preference lists every position of the row exactly once.\<close>

definition lists_positions :: "('a list \<Rightarrow> nat list) \<Rightarrow> bool" where
  "lists_positions order \<longleftrightarrow> (\<forall>xs. distinct (order xs) \<and> set (order xs) = {0..<length xs})"

subsection \<open>The model object\<close>

text \<open>
  The attributes of \<^verbatim>\<open>self\<close> that prediction reads. The character dictionary
  (\<^verbatim>\<open>flair.data.Dictionary\<close>) is given by its two lookups and its size; the three
  special indices are those recorded by the constructor for \<^verbatim>\<open><>\<close>,
  \<^verbatim>\<open><S>\<close> and \<^verbatim>\<open><E>\<close>. \<open>encoder_embeddings\<close> tells whether a token
  embedding was handed to the constructor; the vectors themselves sit on the tokens.
  The last two fields are not attributes of the object: they are the orders of preference
  of \<^verbatim>\<open>torch.topk\<close> on a row of probabilities and on a row of scores.
\<close>

record lemmatizer =
  beam_size :: nat
  max_sequence_length :: nat
  dependent_on_input :: bool
  padding_in_front_for_encoder :: bool
  start_symbol :: bool
  end_symbol :: bool
  batching_in_rnn :: bool
  bi_encoding :: bool
  rnn_hidden_size :: nat
  rnn_layers :: nat
  encode_characters :: bool
  use_attention :: bool
  label_type :: string
  get_idx_for_item :: "char \<Rightarrow> nat"
  get_item_for_index :: "nat \<Rightarrow> string"
  dict_len :: nat
  dummy_index :: nat
  start_index :: nat
  end_index :: nat
  encoder_embeddings :: bool
  encoder_character_embedding :: "nat \<Rightarrow> vec"
  encoder_rnn :: "vec list \<Rightarrow> vec list \<times> vec list"
  bi_hidden_states_to_hidden_size :: "vec \<Rightarrow> vec"
  emb_to_hidden :: "vec \<Rightarrow> vec"
  decoder_character_embedding :: "nat \<Rightarrow> vec"
  decoder_rnn :: "vec \<Rightarrow> vec list \<Rightarrow> vec \<times> vec list"
  character_decoder :: "vec \<Rightarrow> vec"
  topk_order :: "real list \<Rightarrow> nat list"
  topk_order_scores :: "lp list \<Rightarrow> nat list"

subsection \<open>words\_to\_char\_indices\<close>

text \<open>One row of the index matrix: initialised with the dummy index, then written by the
  three assignments of the loop body.\<close>

definition char_row :: "lemmatizer \<Rightarrow> bool \<Rightarrow> bool \<Rightarrow> bool \<Rightarrow> nat \<Rightarrow> string \<Rightarrow> nat list" where
  "char_row m end_sym start_sym padding_in_front sequence_length token =
     (let c = of_bool end_sym + of_bool start_sym;
          dif = sequence_length - (length token + c);
          shift = (if padding_in_front then dif else 0);
          r0 = replicate sequence_length (dummy_index m);
          r1 = (if start_sym then r0[0 + shift := start_index m] else r0);
          r2 = (if end_sym then r1[length token + of_bool start_sym + shift := end_index m] else r1)
      in fold (\<lambda>(index, letter) r. r[index + of_bool start_sym + shift := get_idx_for_item m letter])
           (enumerate 0 token) r2)"

text \<open>\<^verbatim>\<open>max(len(token) for token in tokens)\<close> raises a ValueError on an empty list;
  \<^verbatim>\<open>not seq_length\<close> holds for \<^verbatim>\<open>None\<close> and for \<open>0\<close>.\<close>

definition words_to_char_indices ::
  "lemmatizer \<Rightarrow> string list \<Rightarrow> bool \<Rightarrow> bool \<Rightarrow> bool \<Rightarrow> nat option \<Rightarrow> error + nat list list" where
  "words_to_char_indices m tokens end_sym start_sym padding_in_front seq_length =
     (if tokens = [] then Inl ValueError
      else
        let c = of_bool end_sym + of_bool start_sym;
            max_length = Max (set (map length tokens)) + c;
            sequence_length =
              (case seq_length of
                 None \<Rightarrow> max_length
               | Some s \<Rightarrow> if s = 0 then max_length else max s max_length)
        in Inr (map (char_row m end_sym start_sym padding_in_front sequence_length) tokens))"

subsection \<open>Tokens and sentences\<close>

text \<open>
  Modelled from the spec: \<^verbatim>\<open>flair.data.Token\<close> and \<^verbatim>\<open>Sentence\<close> are
  not part of the sources. A word is a text span with its labels (the gold lemma among
  them, under the model's label type) and, optionally, a precomputed representation vector;
  a sentence is the list of its words. \<^verbatim>\<open>get_tag(t).value\<close> is the empty string
  when no label of type \<open>t\<close> is attached.
\<close>

record token =
  token_text :: string
  tags :: "string \<Rightarrow> string option"
  embedding :: vec

type_synonym sentence = "token list"

definition get_tag_value :: "token \<Rightarrow> string \<Rightarrow> string" where
  "get_tag_value t ty = (case tags t ty of None \<Rightarrow> [] | Some v \<Rightarrow> v)"

definition remove_labels :: "string \<Rightarrow> token \<Rightarrow> token" where
  "remove_labels ty t = t\<lparr>tags := (tags t)(ty := None)\<rparr>"

definition add_tag :: "string \<Rightarrow> string \<Rightarrow> token \<Rightarrow> token" where
  "add_tag ty v t = t\<lparr>tags := (tags t)(ty \<mapsto> v)\<rparr>"

subsection \<open>decode\<close>

definition dot :: "vec \<Rightarrow> vec \<Rightarrow> real" where
  "dot u v = (\<Sum>(a, b)\<leftarrow>zip u v. a * b)"

text \<open>The attention of \<^verbatim>\<open>decode\<close> for one word and one time step: a softmax over
  the encoder positions of the inner products, then the combination of the encoder outputs
  with these coefficients.\<close>

definition attention :: "lemmatizer \<Rightarrow> vec list \<Rightarrow> vec \<Rightarrow> vec" where
  "attention m all_encoder_outputs output =
     (let attention_coeff = softmax (map (\<lambda>e. dot e output) all_encoder_outputs)
      in map (\<lambda>h. \<Sum>(e, a)\<leftarrow>zip all_encoder_outputs attention_coeff. e ! h * a)
           [0..<rnn_hidden_size m])"

text \<open>One row of \<^verbatim>\<open>decode\<close> at sequence length one (as in prediction): the input
  index of the row, its hidden state and its encoder outputs give the row's output vector
  over the alphabet and its new hidden state.\<close>

definition decode_row :: "lemmatizer \<Rightarrow> nat \<Rightarrow> vec list \<Rightarrow> vec list option \<Rightarrow> vec \<times> vec list" where
  "decode_row m input_index hidden all_encoder_outputs =
     (let input_tensor = decoder_character_embedding m input_index;
          (output, hidden') = decoder_rnn m input_tensor hidden;
          output' = (case all_encoder_outputs of
                       None \<Rightarrow> output
                     | Some enc \<Rightarrow> if use_attention m then output @ attention m enc output else output)
      in (character_decoder m output', hidden'))"

text \<open>The batch: every row is decoded on its own. With attention switched on and no
  encoder outputs, \<^verbatim>\<open>torch.matmul(None, ...)\<close> raises a TypeError.\<close>

definition decode ::
  "lemmatizer \<Rightarrow> nat list \<Rightarrow> vec list list \<Rightarrow> vec list list option \<Rightarrow> error + (vec \<times> vec list) list" where
  "decode m decoder_input_indices initial_hidden_states all_encoder_outputs =
     (if use_attention m \<and> all_encoder_outputs = None then Inl TypeError
      else Inr (map (\<lambda>(i, h, c). decode_row m i h c)
             (zip decoder_input_indices (zip initial_hidden_states
                (case all_encoder_outputs of
                   None \<Rightarrow> replicate (length decoder_input_indices) None
                 | Some encs \<Rightarrow> map Some encs)))))"

subsection \<open>encode\<close>

text \<open>The encoding of the characters of one row of the padded index matrix.
  \<^verbatim>\<open>pack_padded_sequence\<close> hands the first \<open>len\<close> entries of the row to the GRU;
  \<^verbatim>\<open>pad_packed_sequence\<close> fills the outputs with zero vectors up to the longest row.
  The bidirectional case projects every output and pairs the final states of layer
  \<open>i\<close> and \<open>i + rnn_layers\<close>. Last, positions whose input index is the dummy index
  are set to zero.\<close>

definition encode_row :: "lemmatizer \<Rightarrow> nat \<Rightarrow> nat list \<Rightarrow> nat \<Rightarrow> vec list \<times> vec list" where
  "encode_row m width indices len =
     (let input_vectors = map (encoder_character_embedding m) (take len indices);
          (encoding, hidden) = encoder_rnn m input_vectors;
          zero = replicate (if bi_encoding m then 2 * rnn_hidden_size m else rnn_hidden_size m) 0;
          padded = encoding @ replicate (width - length encoding) zero;
          outputs = (if bi_encoding m then map (bi_hidden_states_to_hidden_size m) padded else padded);
          hidden' = (if bi_encoding m
                     then map (\<lambda>i. hidden ! i @ hidden ! (i + rnn_layers m)) [0..<rnn_layers m]
                     else hidden);
          masked = map (\<lambda>(i, v). if i = dummy_index m then replicate (rnn_hidden_size m) 0 else v)
                     (zip indices outputs)
      in (hidden', masked))"

text \<open>\<^verbatim>\<open>encode\<close> on the sentences of a mini-batch: per token the initial hidden
  state of the decoder (one vector per layer) and, when characters are encoded, the
  encoder outputs of every token. \<^verbatim>\<open>pack_padded_sequence\<close> rejects a length of
  zero and \<^verbatim>\<open>torch.cat\<close> an empty list of tensors; \<open>emb_to_hidden\<close> rejects the
  embedding alone when the encoding is bidirectional (it expects a hidden state beside
  it).\<close>

definition encode :: "lemmatizer \<Rightarrow> sentence list \<Rightarrow> error + (vec list list \<times> vec list list option)" where
  "encode m sentences =
     (let tokens = concat sentences in
      case (if encode_characters m
            then (case words_to_char_indices m (map token_text tokens) (end_symbol m) (start_symbol m)
                         (padding_in_front_for_encoder m) None of
                    Inl e \<Rightarrow> Inl e
                  | Inr encoder_input_indices \<Rightarrow>
                      let extra = of_bool (start_symbol m) + of_bool (end_symbol m);
                          lengths = map (\<lambda>t. length (token_text t) + extra) tokens
                      in if 0 \<in> set lengths then Inl RuntimeError
                         else Inr (Some (map (\<lambda>(indices, len). encode_row m (Max (set lengths)) indices len)
                                          (zip encoder_input_indices lengths))))
            else Inr None) of
        Inl e \<Rightarrow> Inl e
      | Inr chars \<Rightarrow>
          if chars = None \<and> \<not> encoder_embeddings m then Inl RuntimeError
          else if chars = None \<and> bi_encoding m then Inl RuntimeError
          else
            let token_embedding_hidden = map (\<lambda>t. replicate (rnn_layers m) (embedding t)) tokens;
                initial_hidden_for_decoder =
                  (case chars of
                     None \<Rightarrow> token_embedding_hidden
                   | Some rows \<Rightarrow>
                       if encoder_embeddings m
                       then map (\<lambda>(h, e). map (\<lambda>(a, b). a @ b) (zip h e)) (zip (map fst rows) token_embedding_hidden)
                       else map fst rows)
            in Inr (map (map (emb_to_hidden m)) initial_hidden_for_decoder,
                    map_option (map snd) chars))"

subsection \<open>Helpers of the beam search\<close>

text \<open>The first failure among the rows of a tensor operation, or all the results.\<close>

fun sequence_err :: "(error + 'a) list \<Rightarrow> error + 'a list" where
  "sequence_err [] = Inr []"
| "sequence_err (x # xs) =
     (case x of
        Inl e \<Rightarrow> Inl e
      | Inr v \<Rightarrow> (case sequence_err xs of Inl e \<Rightarrow> Inl e | Inr vs \<Rightarrow> Inr (v # vs)))"

text \<open>\<^verbatim>\<open>out_probs[..., self.dummy_index] = -1; out_probs[..., self.start_index] = -1\<close>
  on one row.\<close>

definition mask_probs :: "lemmatizer \<Rightarrow> vec \<Rightarrow> vec" where
  "mask_probs m out_probs = (out_probs[dummy_index m := - 1])[start_index m := - 1]"

text \<open>\<^verbatim>\<open>out_probs.topk(self.beam_size)\<close> on one row, followed by the
  \<^verbatim>\<open>torch.log\<close> of the chosen probabilities: the logarithm of a masked entry
  \<open>-1\<close> is NaN.\<close>

definition topk_probs :: "lemmatizer \<Rightarrow> vec \<Rightarrow> error + (real \<times> nat) list" where
  "topk_probs m out_probs =
     (case topk (topk_order m) id (beam_size m) out_probs of
        Inl e \<Rightarrow> Inl e
      | Inr topk_out \<Rightarrow> if list_ex (\<lambda>(p, c). p < 0) topk_out then Inl NonFinite else Inr topk_out)"

text \<open>\<^verbatim>\<open>t.view(rows, cols)\<close> of a flat tensor.\<close>

definition view :: "nat \<Rightarrow> nat \<Rightarrow> 'a list \<Rightarrow> 'a list list" where
  "view rows cols xs = map (\<lambda>i. take cols (drop (i * cols) xs)) [0..<rows]"

text \<open>A finalized hypothesis: its index sequence, its normalized score and its loss.\<close>

type_synonym candidate = "nat list \<times> lp \<times> real"

text \<open>\<^verbatim>\<open>sorted(l, key=lambda tup: tup[1], reverse=True)[0]\<close>.\<close>

definition best_candidate :: "candidate list \<Rightarrow> error + candidate" where
  "best_candidate l =
     (case sorted_desc (\<lambda>tup. lp_key (fst (snd tup))) l of
        [] \<Rightarrow> Inl IndexError
      | best # _ \<Rightarrow> Inr best)"

text \<open>The characters of an index sequence, concatenated.\<close>

definition lemma_of :: "lemmatizer \<Rightarrow> nat list \<Rightarrow> string" where
  "lemma_of m seq = concat (map (get_item_for_index m) seq)"

subsection \<open>predict: the batched beam search\<close>

text \<open>The tensors carried from one iteration to the next; row \<open>i * beam_size + l\<close> of
  each belongs to hypothesis \<open>l\<close> of token \<open>i\<close>. (\<open>losses\<close> is only assigned when the loss
  is requested; \<open>n_completed\<close> is written and never read, and is left out.)\<close>

record beam =
  sequences :: "nat list list"
  scores :: "lp list"
  leading_indices :: "nat list"
  hidden_states_beam :: "vec list list"
  losses :: "real list"

text \<open>\<^verbatim>\<open>(index_candidates == self.end_index).nonzero()\<close>: the positions in row-major
  order.\<close>

definition end_positions :: "nat \<Rightarrow> nat list list \<Rightarrow> (nat \<times> nat) list" where
  "end_positions e index_candidates =
     concat (map (\<lambda>r. map (\<lambda>c. (r, c))
                        (filter (\<lambda>c. index_candidates ! r ! c = e) [0..<length (index_candidates ! r)]))
               [0..<length index_candidates])"

text \<open>The body of the loop over these positions: the hypothesis of row \<open>tuple[0]\<close> is set
  aside for its token and the log-probability of the end symbol becomes \<open>-inf\<close>.\<close>

definition set_aside ::
  "lemmatizer \<Rightarrow> bool \<Rightarrow> nat list list \<Rightarrow> nat \<Rightarrow> beam \<Rightarrow> vec list \<Rightarrow> nat \<times> nat \<Rightarrow>
   candidate list list \<times> lp list list \<Rightarrow> candidate list list \<times> lp list list" where
  "set_aside m return_loss target j st output_vectors = (\<lambda>(r, c) (final_candidates, log_probabilities).
     let token_number = r div beam_size m;
         seq = sequences st ! r;
         score = lp_div (lp_add (scores st ! r) (log_probabilities ! r ! c)) (length seq + 1);
         loss = (if return_loss
                 then (losses st ! r + cross_entropy (output_vectors ! r) (target ! token_number ! j))
                        / real (length seq + 1)
                 else 0)
     in (final_candidates[token_number := final_candidates ! token_number @ [(seq, score, loss)]],
         log_probabilities[r := (log_probabilities ! r)[c := MInf]]))"

text \<open>\<^verbatim>\<open>torch.cat(self.beam_size * [scores], dim=1) + log_probabilities\<close>.\<close>

definition hypothesis_scores :: "beam \<Rightarrow> lp list list \<Rightarrow> lp list list" where
  "hypothesis_scores st log_probabilities =
     map (\<lambda>(s, row). map (lp_add s) row) (zip (scores st) log_probabilities)"

text \<open>The tensors of the next iteration, from the indices chosen per token among its
  \<open>beam_size * beam_size\<close> candidates.\<close>

definition next_beam ::
  "lemmatizer \<Rightarrow> bool \<Rightarrow> nat list list \<Rightarrow> nat \<Rightarrow> beam \<Rightarrow> (vec \<times> vec list) list \<Rightarrow> nat list list \<Rightarrow>
   lp list list \<Rightarrow> nat list list \<Rightarrow> beam" where
  "next_beam m return_loss target j st dec index_candidates log_probabilities indices_per_token =
     (let beam_numbers =
            concat (map (\<lambda>(i, row). map (\<lambda>index. i * beam_size m + index div beam_size m) row)
                      (enumerate 0 indices_per_token));
          seq_numbers = concat (map (map (\<lambda>index. index mod beam_size m)) indices_per_token);
          picks = zip beam_numbers seq_numbers
      in \<lparr>sequences = map (\<lambda>(b, s). sequences st ! b @ [index_candidates ! b ! s]) picks,
          scores = map (\<lambda>(b, s). lp_add (scores st ! b) (log_probabilities ! b ! s)) picks,
          leading_indices = map (\<lambda>(b, s). index_candidates ! b ! s) picks,
          hidden_states_beam = map (\<lambda>b. snd (dec ! b)) beam_numbers,
          losses =
            (if return_loss
             then map (\<lambda>(b, t). losses st ! b + cross_entropy (fst (dec ! b)) t)
                    (zip beam_numbers (concat (map (\<lambda>row. replicate (beam_size m) (row ! j)) target)))
             else losses st)\<rparr>)"

text \<open>One iteration \<open>j\<close> of \<^verbatim>\<open>for j in range(1, max_length)\<close>: the decoding of all
  rows and their \<open>beam_size\<close> best next characters; the rows whose candidate is the end
  symbol are set aside; per token, the \<open>beam_size\<close> best of the
  \<open>beam_size * beam_size\<close> cumulative scores are chosen.\<close>

definition beam_step ::
  "lemmatizer \<Rightarrow> bool \<Rightarrow> nat list list \<Rightarrow> vec list list option \<Rightarrow> nat \<Rightarrow> nat \<Rightarrow>
   beam \<times> candidate list list \<Rightarrow> error + beam \<times> candidate list list" where
  "beam_step m return_loss target batched_encoding_output number_tokens j = (\<lambda>(st, final_candidates).
     case decode m (leading_indices st) (hidden_states_beam st) batched_encoding_output of
       Inl e \<Rightarrow> Inl e
     | Inr dec \<Rightarrow>
     case sequence_err (map (topk_probs m) (map (\<lambda>v. mask_probs m (softmax v)) (map fst dec))) of
       Inl e \<Rightarrow> Inl e
     | Inr topk_out \<Rightarrow>
     let index_candidates = map (map snd) topk_out;
         log_probabilities = map (map (torch_log \<circ> fst)) topk_out;
         set_asides = fold (set_aside m return_loss target j st (map fst dec))
                        (end_positions (end_index m) index_candidates)
                        (final_candidates, log_probabilities);
         hypothesis_scores_per_token =
           view number_tokens (beam_size m * beam_size m)
             (concat (hypothesis_scores st (snd set_asides)))
     in case sequence_err (map (topk (topk_order_scores m) lp_key (beam_size m))
                             hypothesis_scores_per_token) of
          Inl e \<Rightarrow> Inl e
        | Inr best \<Rightarrow>
            Inr (next_beam m return_loss target j st dec index_candidates (snd set_asides)
                   (map (map snd) best),
                 fst set_asides))"

text \<open>The loop itself; an error of an iteration ends it.\<close>

fun beam_loop ::
  "lemmatizer \<Rightarrow> bool \<Rightarrow> nat list list \<Rightarrow> vec list list option \<Rightarrow> nat \<Rightarrow> nat list \<Rightarrow>
   beam \<times> candidate list list \<Rightarrow> error + beam \<times> candidate list list" where
  "beam_loop m return_loss target enc number_tokens [] s = Inr s"
| "beam_loop m return_loss target enc number_tokens (j # js) s =
     (case beam_step m return_loss target enc number_tokens j s of
        Inl e \<Rightarrow> Inl e
      | Inr s' \<Rightarrow> beam_loop m return_loss target enc number_tokens js s')"

text \<open>After the loop: a token without a finalized hypothesis gets the best of its
  remaining ones, with score and loss divided by \<open>max_length\<close>. (The quotient of a tensor
  by \<open>max_length = 0\<close> is infinite or NaN.)\<close>

definition append_unfinished ::
  "lemmatizer \<Rightarrow> bool \<Rightarrow> nat \<Rightarrow> nat \<Rightarrow> beam \<Rightarrow> candidate list list \<Rightarrow> error + candidate list list" where
  "append_unfinished m return_loss max_length number_tokens st final_candidates =
     (case sequence_err (map (topk (topk_order_scores m) lp_key 1)
                           (view number_tokens (beam_size m) (scores st))) of
        Inl e \<Rightarrow> Inl e
      | Inr best \<Rightarrow>
          if max_length = 0 \<and> list_ex (\<lambda>l. length l = 0) final_candidates then Inl NonFinite
          else
          Inr (map (\<lambda>(j, best_j, l).
                 if length l = 0
                 then (let (score, index) = hd best_j;
                           beam = j * beam_size m + index;
                           loss = (if return_loss then losses st ! beam / real max_length else 0)
                       in l @ [(sequences st ! beam, lp_div score max_length, loss)])
                 else l)
               (zip [0..<length final_candidates] (zip best final_candidates))))"

text \<open>The predicted lemmas are attached to the tokens of the batch, in the order of
  \<open>tokens_in_batch\<close>.\<close>

fun annotate :: "string \<Rightarrow> string list \<Rightarrow> sentence list \<Rightarrow> sentence list" where
  "annotate ty lemmas [] = []"
| "annotate ty lemmas (s # ss) =
     map (\<lambda>(t, l). add_tag ty l t) (zip s (take (length s) lemmas))
       # annotate ty (drop (length s) lemmas) ss"

text \<open>The gold label of a token when the loss is requested: its lemma, or its text when
  it has none.\<close>

definition gold_label :: "lemmatizer \<Rightarrow> token \<Rightarrow> string" where
  "gold_label m t =
     (if get_tag_value t (label_type m) \<noteq> [] then get_tag_value t (label_type m) else token_text t)"

text \<open>The tensors after the first decoding step: every one of the \<open>beam_size\<close> best
  first characters of a token starts a hypothesis of its own.\<close>

definition first_beam ::
  "lemmatizer \<Rightarrow> bool \<Rightarrow> nat list list \<Rightarrow> (vec \<times> vec list) list \<Rightarrow> (real \<times> nat) list list \<Rightarrow> beam" where
  "first_beam m return_loss target dec topk_out =
     \<lparr>sequences = map (\<lambda>(p, i). [i]) (concat topk_out),
      scores = map (\<lambda>(p, i). torch_log p) (concat topk_out),
      leading_indices = map snd (concat topk_out),
      hidden_states_beam = concat (map (replicate (beam_size m)) (map snd dec)),
      losses =
        (if return_loss
         then concat (map (\<lambda>(v, row). replicate (beam_size m) (cross_entropy v (row ! 0)))
                        (zip (map fst dec) target))
         else [])\<rparr>"

text \<open>The decoding of a mini-batch, from the encoder's results to the best finalized
  hypothesis of every token (\<open>output_sequences\<close>).\<close>

definition batch_search ::
  "lemmatizer \<Rightarrow> bool \<Rightarrow> nat \<Rightarrow> token list \<Rightarrow> vec list list \<Rightarrow> vec list list option \<Rightarrow>
   error + candidate list" where
  "batch_search m return_loss max_length tokens_in_batch hidden0 all_encoder_outputs =
     (let number_tokens = length tokens_in_batch
      in case decode m (replicate number_tokens (start_index m)) hidden0 all_encoder_outputs of
           Inl e \<Rightarrow> Inl e
         | Inr dec \<Rightarrow>
      let out_probs = map (\<lambda>v. mask_probs m (softmax v)) (map fst dec)
      in case sequence_err (map (topk_probs m) out_probs) of
           Inl e \<Rightarrow> Inl e
         | Inr topk_out \<Rightarrow>
      case (if return_loss
            then words_to_char_indices m (map (gold_label m) tokens_in_batch) True False False
                   (Some max_length)
            else Inr []) of
           Inl e \<Rightarrow> Inl e
         | Inr target \<Rightarrow>
      let st = first_beam m return_loss target dec topk_out;
          final_candidates = replicate number_tokens [];
          batched_encoding_output =
            (if use_attention m
             then map_option (\<lambda>encs. concat (map (replicate (beam_size m)) encs)) all_encoder_outputs
             else None)
      in case beam_loop m return_loss target batched_encoding_output number_tokens [1..<max_length]
                (st, final_candidates) of
           Inl e \<Rightarrow> Inl e
         | Inr (st', final_candidates') \<Rightarrow>
      case append_unfinished m return_loss max_length number_tokens st' final_candidates' of
           Inl e \<Rightarrow> Inl e
         | Inr final_candidates'' \<Rightarrow> sequence_err (map best_candidate final_candidates''))"

text \<open>The body of \<^verbatim>\<open>for batch in dataloader\<close> when \<open>batching_in_rnn\<close> holds:
  the annotated sentences of the batch and the sum of the losses of the chosen
  hypotheses.\<close>

definition predict_batch ::
  "lemmatizer \<Rightarrow> string \<Rightarrow> bool \<Rightarrow> nat \<Rightarrow> sentence list \<Rightarrow> error + sentence list \<times> real" where
  "predict_batch m label_name return_loss max_length batch0 =
     (let batch = map (map (remove_labels label_name)) batch0;
          tokens_in_batch = concat batch
      in case encode m batch of
           Inl e \<Rightarrow> Inl e
         | Inr (hidden, all_encoder_outputs) \<Rightarrow>
      case batch_search m return_loss max_length tokens_in_batch hidden all_encoder_outputs of
           Inl e \<Rightarrow> Inl e
         | Inr output_sequences \<Rightarrow>
             Inr (annotate label_name (map (\<lambda>seq. lemma_of m (fst seq)) output_sequences) batch,
                  sum_list (map (\<lambda>seq. snd (snd seq)) output_sequences)))"

subsection \<open>predict: one token at a time\<close>

text \<open>A live hypothesis (an entry of the list \<^verbatim>\<open>sequences\<close>, here \<open>live\<close>):
  the predictions so far, the last hidden state, the score and the loss.\<close>

type_synonym hypothesis = "nat list \<times> vec list \<times> lp \<times> real"

text \<open>The expansion of one hypothesis in iteration \<open>i\<close>: each of its \<open>beam_size\<close> best
  continuations is set aside when it is the end symbol, and becomes a new hypothesis
  otherwise.\<close>

definition expand ::
  "lemmatizer \<Rightarrow> bool \<Rightarrow> nat list list \<Rightarrow> vec list option \<Rightarrow> nat \<Rightarrow> hypothesis \<Rightarrow>
   hypothesis list \<times> candidate list \<Rightarrow> error + hypothesis list \<times> candidate list" where
  "expand m return_loss target all_encoder_outputs i = (\<lambda>(seq, hid, score, seq_loss) acc.
     let (output_vectors, hidden_state) = decode_row m (last seq) hid all_encoder_outputs;
         out_probs = mask_probs m (softmax output_vectors);
         new_loss = (if return_loss then seq_loss + cross_entropy output_vectors (target ! 0 ! i) else 0)
     in case topk_probs m out_probs of
          Inl e \<Rightarrow> Inl e
        | Inr topk_out \<Rightarrow>
            Inr (fold (\<lambda>(p, prediction_index) (new_sequences, final_candidates).
                   let s = lp_add score (torch_log p)
                   in if prediction_index = end_index m
                      then (new_sequences,
                            final_candidates @
                              [(seq, lp_div s (length seq + 1), new_loss / real (length seq + 1))])
                      else (new_sequences @ [(seq @ [prediction_index], hidden_state, s, new_loss)],
                            final_candidates))
                  topk_out acc))"

fun expand_all ::
  "lemmatizer \<Rightarrow> bool \<Rightarrow> nat list list \<Rightarrow> vec list option \<Rightarrow> nat \<Rightarrow> hypothesis list \<Rightarrow>
   hypothesis list \<times> candidate list \<Rightarrow> error + hypothesis list \<times> candidate list" where
  "expand_all m return_loss target enc i [] acc = Inr acc"
| "expand_all m return_loss target enc i (h # hs) acc =
     (case expand m return_loss target enc i h acc of
        Inl e \<Rightarrow> Inl e
      | Inr acc' \<Rightarrow> expand_all m return_loss target enc i hs acc')"

text \<open>\<^verbatim>\<open>for i in range(1, max_length)\<close> with its \<^verbatim>\<open>break\<close>.\<close>

fun token_loop ::
  "lemmatizer \<Rightarrow> bool \<Rightarrow> nat list list \<Rightarrow> vec list option \<Rightarrow> nat list \<Rightarrow>
   hypothesis list \<times> candidate list \<Rightarrow> error + hypothesis list \<times> candidate list" where
  "token_loop m return_loss target enc [] s = Inr s"
| "token_loop m return_loss target enc (i # is) (live, final_candidates) =
     (case expand_all m return_loss target enc i live ([], final_candidates) of
        Inl e \<Rightarrow> Inl e
      | Inr (new_sequences, final_candidates') \<Rightarrow>
          if length new_sequences = 0 then Inr (live, final_candidates')
          else token_loop m return_loss target enc is
                 (take (beam_size m) (sorted_desc (\<lambda>tup. lp_key (fst (snd (snd tup)))) new_sequences),
                  final_candidates'))"

text \<open>The initial hidden state of one token and its encoder outputs; the latter stay
  unassigned when a token embedding is used. The GRU rejects a sequence of length zero.
  Two configurations are rejected by the layers: \<open>emb_to_hidden\<close> expects the encoder's
  hidden state beside the embedding whenever characters are encoded or the encoding is
  bidirectional, and here it is given the embedding alone; and the decoder's GRU does not
  accept the \<open>2 * rnn_layers\<close> final states of a bidirectional encoder.\<close>

definition token_hidden :: "lemmatizer \<Rightarrow> token \<Rightarrow> error + vec list \<times> vec list option" where
  "token_hidden m token =
     (if encoder_embeddings m
      then (if encode_characters m \<or> bi_encoding m then Inl RuntimeError
            else Inr (map (emb_to_hidden m) (replicate (rnn_layers m) (embedding token)), None))
      else case words_to_char_indices m [token_text token] (end_symbol m) (start_symbol m) False None of
             Inl e \<Rightarrow> Inl e
           | Inr input_indices \<Rightarrow>
               if hd input_indices = [] then Inl RuntimeError
               else if bi_encoding m then Inl RuntimeError
               else let (all_encoder_outputs, hidden_state) =
                          encoder_rnn m (map (encoder_character_embedding m) (hd input_indices))
                    in Inr (hidden_state, Some all_encoder_outputs))"

text \<open>After the loop: when no hypothesis was finalized, the first of the remaining ones
  is, with score and loss divided by \<open>max_length\<close>; then the best finalized hypothesis is
  chosen. Without the loss, the loss of a hypothesis is the integer \<open>0\<close>, whose quotient by
  \<open>max_length = 0\<close> is a ZeroDivisionError; with the loss, both quotients are those of
  tensors, infinite or NaN.\<close>

definition finish_token ::
  "bool \<Rightarrow> nat \<Rightarrow> hypothesis list \<times> candidate list \<Rightarrow> error + candidate" where
  "finish_token return_loss max_length = (\<lambda>(live, final_candidates).
     case (if length final_candidates = 0
           then (case live of
                   [] \<Rightarrow> Inl IndexError
                 | (seq, hid, score, seq_loss) # _ \<Rightarrow>
                     if max_length = 0 \<and> \<not> return_loss then Inl ZeroDivisionError
                     else if max_length = 0 then Inl NonFinite
                     else Inr (final_candidates @
                                 [(seq, lp_div score max_length, seq_loss / real max_length)]))
           else Inr final_candidates) of
       Inl e \<Rightarrow> Inl e
     | Inr final_candidates' \<Rightarrow> best_candidate final_candidates')"

text \<open>The list \<^verbatim>\<open>sequences\<close> after the first decoding step: one hypothesis for
  each of the \<open>beam_size\<close> best first characters.\<close>

definition first_hypotheses :: "vec list \<Rightarrow> real \<Rightarrow> (real \<times> nat) list \<Rightarrow> hypothesis list" where
  "first_hypotheses hidden_state loss topk_out =
     map (\<lambda>(p, prediction_index). ([prediction_index], hidden_state, torch_log p, loss)) topk_out"

text \<open>The decoding of one token, from its initial hidden state to its best finalized
  hypothesis (\<open>best_sequence\<close>). Reading the unassigned encoder outputs is a NameError.\<close>

definition token_search ::
  "lemmatizer \<Rightarrow> bool \<Rightarrow> nat \<Rightarrow> token \<Rightarrow> vec list \<Rightarrow> vec list option \<Rightarrow> error + candidate" where
  "token_search m return_loss max_length token hidden0 all_encoder_outputs =
     (if use_attention m \<and> all_encoder_outputs = None then Inl NameError
      else
      let (output_vectors, hidden_state) = decode_row m (start_index m) hidden0 all_encoder_outputs;
          out_probs = mask_probs m (softmax output_vectors)
      in case topk_probs m out_probs of
           Inl e \<Rightarrow> Inl e
         | Inr topk_out \<Rightarrow>
      case (if return_loss
            then words_to_char_indices m [gold_label m token] True False False (Some max_length)
            else Inr []) of
           Inl e \<Rightarrow> Inl e
         | Inr target \<Rightarrow>
      let loss = (if return_loss then cross_entropy output_vectors (target ! 0 ! 0) else 0);
          live = first_hypotheses hidden_state loss topk_out
      in case token_loop m return_loss target all_encoder_outputs [1..<max_length] (live, []) of
           Inl e \<Rightarrow> Inl e
         | Inr s \<Rightarrow> finish_token return_loss max_length s)"

text \<open>The body of \<^verbatim>\<open>for token in sentence\<close> without batching: the annotated token
  and the loss of its chosen hypothesis.\<close>

definition predict_token ::
  "lemmatizer \<Rightarrow> string \<Rightarrow> bool \<Rightarrow> nat \<Rightarrow> token \<Rightarrow> error + token \<times> real" where
  "predict_token m label_name return_loss max_length token0 =
     (let token = remove_labels label_name token0
      in case token_hidden m token of
           Inl e \<Rightarrow> Inl e
         | Inr (hidden_state, all_encoder_outputs) \<Rightarrow>
      case token_search m return_loss max_length token hidden_state all_encoder_outputs of
           Inl e \<Rightarrow> Inl e
         | Inr best_sequence \<Rightarrow>
             Inr (add_tag label_name (lemma_of m (fst best_sequence)) token, snd (snd best_sequence)))"

subsection \<open>predict\<close>

text \<open>
  Modelled from the spec: the dataset collaborator
  (\<^verbatim>\<open>DataLoader(dataset=SentenceDataset(sentences), batch_size=mini_batch_size)\<close>) is
  not part of the sources; it supplies the sentences in mini-batches, in order, and rejects
  a batch size of zero.
\<close>

definition data_loader :: "nat \<Rightarrow> 'a list \<Rightarrow> error + 'a list list" where
  "data_loader batch_size xs =
     (if batch_size = 0 then Inl ValueError
      else Inr (map (\<lambda>i. take batch_size (drop (i * batch_size) xs))
                  [0..<(length xs + batch_size - 1) div batch_size]))"

text \<open>A loop whose body may fail and contributes to \<open>overall_loss\<close>.\<close>

fun run_all :: "('a \<Rightarrow> error + 'b \<times> real) \<Rightarrow> 'a list \<Rightarrow> error + 'b list \<times> real" where
  "run_all f [] = Inr ([], 0)"
| "run_all f (x # xs) =
     (case f x of
        Inl e \<Rightarrow> Inl e
      | Inr (y, l) \<Rightarrow>
          (case run_all f xs of Inl e \<Rightarrow> Inl e | Inr (ys, l') \<Rightarrow> Inr (y # ys, l + l')))"

text \<open>The caller's sentences after the call: the empty ones as they were, the others as
  the loops left them.\<close>

fun merge_sentences :: "sentence list \<Rightarrow> sentence list \<Rightarrow> sentence list" where
  "merge_sentences [] processed = []"
| "merge_sentences (s # ss) processed =
     (if length s > 0
      then (case processed of
              [] \<Rightarrow> s # merge_sentences ss []
            | p # ps \<Rightarrow> p # merge_sentences ss ps)
      else s # merge_sentences ss processed)"

text \<open>What \<^verbatim>\<open>predict\<close> returns: the (empty) list of sentences left by the filter, the
  pair of the loss and the number of tokens, or nothing.\<close>

datatype predict_result = ReturnSentences "sentence list" | ReturnLoss real nat | ReturnNone

text \<open>\<^verbatim>\<open>predict\<close>: the model object after the call, and either the error raised or the
  caller's sentences after the call with the value returned. (The arguments for printing
  and for the storage of embeddings are left out.)\<close>

definition predict ::
  "lemmatizer \<Rightarrow> sentence list \<Rightarrow> string \<Rightarrow> nat \<Rightarrow> bool \<Rightarrow>
   lemmatizer \<times> (error + sentence list \<times> predict_result)" where
  "predict m sentences0 label_name mini_batch_size return_loss =
     (let self = (if beam_size m = 1 then m\<lparr>batching_in_rnn := False\<rparr> else m);
          sentences = filter (\<lambda>sentence. length sentence > 0) sentences0
      in (self,
          if length sentences = 0 then Inr (sentences0, ReturnSentences sentences)
          else
            let max_length =
                  (if \<not> dependent_on_input self then max_sequence_length self
                   else Max (set (map (\<lambda>token. length (token_text token) + 1) (concat sentences))))
            in case data_loader mini_batch_size sentences of
                 Inl e \<Rightarrow> Inl e
               | Inr dataloader \<Rightarrow>
                   (case (if batching_in_rnn self
                          then run_all (predict_batch self label_name return_loss max_length) dataloader
                          else run_all (run_all (run_all
                                 (predict_token self label_name return_loss max_length))) dataloader) of
                      Inl e \<Rightarrow> Inl e
                    | Inr (processed, overall_loss) \<Rightarrow>
                        Inr (merge_sentences sentences0 (concat processed),
                             if return_loss
                             then ReturnLoss overall_loss (length (concat sentences))
                             else ReturnNone))))"

subsection \<open>\_get\_state\_dict\<close>

text \<open>The exported state, without the entries that hold learned weights and the
  dictionary object.\<close>

record model_state =
  state_rnn_hidden_size :: nat
  state_rnn_layers :: nat
  state_label_type :: string
  state_beam_size :: nat
  state_max_sequence_length :: nat
  state_dependent_on_input :: bool
  state_use_attention :: bool
  state_padding_in_front_for_encoder :: bool
  state_encode_characters :: bool
  state_start_symbol :: bool
  state_end_symbol :: bool
  state_batching_in_rnn :: bool
  state_bidirectional_encoding :: bool

definition get_state_dict :: "lemmatizer \<Rightarrow> model_state" where
  "get_state_dict self =
     \<lparr>state_rnn_hidden_size = rnn_hidden_size self,
      state_rnn_layers = rnn_layers self,
      state_label_type = label_type self,
      state_beam_size = beam_size self,
      state_max_sequence_length = max_sequence_length self,
      state_dependent_on_input = dependent_on_input self,
      state_use_attention = use_attention self,
      state_padding_in_front_for_encoder = padding_in_front_for_encoder self,
      state_encode_characters = encode_characters self,
      state_start_symbol = start_symbol self,
      state_end_symbol = end_symbol self,
      state_batching_in_rnn = batching_in_rnn self,
      state_bidirectional_encoding = bi_encoding self\<rparr>"

subsection \<open>The layout of a row, in the words of the specification\<close>

text \<open>The start symbol immediately before the text, the end symbol immediately after,
  and the padding index in the unused cells, in front or at the back.\<close>

definition expected_row :: "lemmatizer \<Rightarrow> bool \<Rightarrow> bool \<Rightarrow> bool \<Rightarrow> nat \<Rightarrow> string \<Rightarrow> nat list" where
  "expected_row m end_sym start_sym pad_front width s =
     (let body = (if start_sym then [start_index m] else []) @ map (get_idx_for_item m) s
                   @ (if end_sym then [end_index m] else []);
          fill = replicate (width - length body) (dummy_index m)
      in if pad_front then fill @ body else body @ fill)"

subsection \<open>The expansion of a hypothesis, in the words of the specification\<close>

text \<open>The \<open>beam_size\<close> best next characters of a hypothesis, each with its probability:
  the decoder's distribution after the hypothesis's last character, with the padding and
  the start symbol masked.\<close>

definition best_characters :: "lemmatizer \<Rightarrow> vec list option \<Rightarrow> hypothesis \<Rightarrow> (real \<times> nat) list" where
  "best_characters m enc = (\<lambda>(seq, hid, score, loss).
     let probs = mask_probs m (softmax (fst (decode_row m (last seq) hid enc)))
     in take (beam_size m) (sorted_desc fst (map (\<lambda>i. (probs ! i, i)) (topk_order m probs))))"

text \<open>The loss of a hypothesis after one more step, against the gold character \<open>t\<close>.\<close>

definition next_loss :: "lemmatizer \<Rightarrow> bool \<Rightarrow> nat \<Rightarrow> vec list option \<Rightarrow> hypothesis \<Rightarrow> real" where
  "next_loss m return_loss t enc = (\<lambda>(seq, hid, score, loss).
     if return_loss then loss + cross_entropy (fst (decode_row m (last seq) hid enc)) t else 0)"

text \<open>The candidates of a hypothesis whose next character is the end symbol: finalized,
  with the score \<open>(parent + candidate) / (length including the end symbol)\<close>.\<close>

definition terminations ::
  "lemmatizer \<Rightarrow> bool \<Rightarrow> nat \<Rightarrow> vec list option \<Rightarrow> hypothesis \<Rightarrow> candidate list" where
  "terminations m return_loss t enc h =
     map (\<lambda>(p, c). (fst h,
                    lp_div (lp_add (fst (snd (snd h))) (torch_log p)) (length (fst h) + 1),
                    next_loss m return_loss t enc h / real (length (fst h) + 1)))
       (filter (\<lambda>(p, c). c = end_index m) (best_characters m enc h))"

text \<open>The other candidates of a hypothesis: continued by the character, with the
  unnormalized cumulative score.\<close>

definition continuations ::
  "lemmatizer \<Rightarrow> bool \<Rightarrow> nat \<Rightarrow> vec list option \<Rightarrow> hypothesis \<Rightarrow> hypothesis list" where
  "continuations m return_loss t enc h =
     map (\<lambda>(p, c). (fst h @ [c],
                    snd (decode_row m (last (fst h)) (fst (snd h)) enc),
                    lp_add (fst (snd (snd h))) (torch_log p),
                    next_loss m return_loss t enc h))
       (filter (\<lambda>(p, c). c \<noteq> end_index m) (best_characters m enc h))"


subsection \<open>Reading the tensors of the batched search\<close>

text \<open>Row \<open>r\<close> of the tensors as one hypothesis, and the hypotheses of token \<open>i\<close>.\<close>

definition row_hypothesis :: "bool \<Rightarrow> beam \<Rightarrow> nat \<Rightarrow> hypothesis" where
  "row_hypothesis return_loss st r =
     (sequences st ! r, hidden_states_beam st ! r, scores st ! r,
      if return_loss then losses st ! r else 0)"

definition token_rows :: "lemmatizer \<Rightarrow> bool \<Rightarrow> beam \<Rightarrow> nat \<Rightarrow> hypothesis list" where
  "token_rows m return_loss st i =
     map (row_hypothesis return_loss st) [i * beam_size m..<i * beam_size m + beam_size m]"

text \<open>The encoder outputs that row \<open>r\<close> attends over.\<close>

definition row_context :: "vec list list option \<Rightarrow> nat \<Rightarrow> vec list option" where
  "row_context batched_encoding_output r = map_option (\<lambda>encs. encs ! r) batched_encoding_output"

text \<open>What the loop of the batched search maintains: all tensors have \<open>beam_size\<close> rows
  per token, the leading index of a row is the last entry of its sequence, and the score
  of a row is finite.\<close>

definition beam_ok :: "lemmatizer \<Rightarrow> bool \<Rightarrow> nat \<Rightarrow> beam \<Rightarrow> bool" where
  "beam_ok m return_loss number_tokens st \<longleftrightarrow>
     length (sequences st) = number_tokens * beam_size m \<and>
     length (scores st) = number_tokens * beam_size m \<and>
     length (leading_indices st) = number_tokens * beam_size m \<and>
     length (hidden_states_beam st) = number_tokens * beam_size m \<and>
     (return_loss \<longrightarrow> length (losses st) = number_tokens * beam_size m) \<and>
     (\<forall>r < number_tokens * beam_size m.
        sequences st ! r \<noteq> [] \<and> leading_indices st ! r = last (sequences st ! r) \<and>
        (\<exists>x. scores st ! r = Fin x))"

text \<open>The alphabet of the output layer is the character dictionary, and it leaves
  \<open>beam_size\<close> symbols to choose from once the padding and the start symbol are masked.\<close>

definition alphabet_ok :: "lemmatizer \<Rightarrow> bool" where
  "alphabet_ok m \<longleftrightarrow>
     1 \<le> beam_size m \<and> beam_size m + 2 \<le> dict_len m \<and>
     (\<forall>v. length (character_decoder m v) = dict_len m) \<and>
     lists_positions (topk_order m) \<and> lists_positions (topk_order_scores m)"

subsection \<open>A small model\<close>

text \<open>A model over the alphabet \<^verbatim>\<open><unk> <> <S> <E> a b c\<close> whose output layer has
  zero weights and the bias \<open>logits\<close>: the decoder's output vector is \<open>logits\<close> at every
  step. Among equal entries its top-k prefers the lower index.\<close>

definition toy_model :: "vec \<Rightarrow> lemmatizer" where
  "toy_model logits =
    \<lparr>beam_size = 1, max_sequence_length = 20, dependent_on_input = True,
     padding_in_front_for_encoder = False, start_symbol = True, end_symbol = False,
     batching_in_rnn = False, bi_encoding = False, rnn_hidden_size = 1, rnn_layers = 1,
     encode_characters = True, use_attention = False, label_type = ''lemma'',
     get_idx_for_item = (\<lambda>c. if c = CHR ''a'' then 4 else if c = CHR ''b'' then 5
                                else if c = CHR ''c'' then 6 else 0),
     get_item_for_index = (\<lambda>i. [''<unk>'', ''<>'', ''<S>'', ''<E>'', ''a'', ''b'', ''c''] ! i),
     dict_len = 7, dummy_index = 1, start_index = 2, end_index = 3,
     encoder_embeddings = False,
     encoder_character_embedding = (\<lambda>i. [real i]),
     encoder_rnn = (\<lambda>xs. (xs, [[0]])),
     bi_hidden_states_to_hidden_size = (\<lambda>v. v),
     emb_to_hidden = (\<lambda>v. v),
     decoder_character_embedding = (\<lambda>i. [real i]),
     decoder_rnn = (\<lambda>x h. (x, h)),
     character_decoder = (\<lambda>v. logits),
     topk_order = (\<lambda>xs. [0..<length xs]),
     topk_order_scores = (\<lambda>xs. [0..<length xs])\<rparr>"

text \<open>Two biases: the first prefers \<open>a\<close>, then \<open>b\<close>, then the end symbol; the second
  prefers the end symbol.\<close>

definition toy_logits :: vec where
  "toy_logits = [0, 0, 0, ln 2, ln 5, ln 3, 0]"

definition toy_logits_end :: vec where
  "toy_logits_end = [0, 0, 0, ln 5, ln 2, ln 3, 0]"

text \<open>The same model with a beam of two hypotheses, decoded in batches.\<close>

definition toy_model_beam :: "vec \<Rightarrow> lemmatizer" where
  "toy_model_beam logits = (toy_model logits)\<lparr>beam_size := 2, batching_in_rnn := True\<rparr>"

definition word :: "string \<Rightarrow> token" where
  "word s = \<lparr>token_text = s, tags = Map.empty, embedding = []\<rparr>"

subsection \<open>The annotation of a sentence\<close>

text \<open>A sentence after the prediction: the same words, each with a lemma attached under
  the label name (a label of that name attached before is replaced).\<close>

definition annotated :: "string \<Rightarrow> sentence \<Rightarrow> sentence \<Rightarrow> bool" where
  "annotated label_name s s' \<longleftrightarrow>
     length s' = length s \<and>
     (\<forall>j < length s. \<exists>lemma. s' ! j = (s ! j)\<lparr>tags := (tags (s ! j))(label_name \<mapsto> lemma)\<rparr>)"

section \<open>Properties\<close>

subsection \<open>Sorting\<close>

lemma length_insort_desc [simp]: "length (insort_desc f x ys) = Suc (length ys)"
  by (induction ys) auto

lemma length_sorted_desc [simp]: "length (sorted_desc f xs) = length xs"
  by (induction xs) (auto simp: sorted_desc_def)

lemma sorted_desc_Nil [simp]: "sorted_desc f [] = []"
  by (simp add: sorted_desc_def)

lemma sorted_desc_Cons: "sorted_desc f (x # xs) = insort_desc f x (sorted_desc f xs)"
  by (simp add: sorted_desc_def)

lemma set_insort_desc [simp]: "set (insort_desc f x ys) = insert x (set ys)"
  by (induction ys) auto

lemma set_sorted_desc [simp]: "set (sorted_desc f xs) = set xs"
  by (induction xs) (auto simp: sorted_desc_Cons)

lemma sorted_insort_desc:
  "sorted_wrt (\<lambda>a b. f b \<le> f a) ys \<Longrightarrow> sorted_wrt (\<lambda>a b. f b \<le> f a) (insort_desc f x ys)"
proof (induction ys)
  case Nil
  then show ?case by simp
next
  case (Cons y ys)
  show ?case
  proof (cases "f y \<le> f x")
    case True
    have "\<forall>z\<in>set ys. f z \<le> f x"
      using Cons.prems True order_trans by fastforce
    then show ?thesis using True Cons.prems by simp
  next
    case False
    then have "f x \<le> f y" by simp
    then show ?thesis using False Cons by auto
  qed
qed

lemma sorted_sorted_desc: "sorted_wrt (\<lambda>a b. f b \<le> f a) (sorted_desc f xs)"
  by (induction xs) (auto simp: sorted_desc_Cons sorted_insort_desc)

lemma insort_desc_sorted_id:
  "\<forall>y\<in>set ys. f y \<le> f x \<Longrightarrow> insort_desc f x ys = x # ys"
  by (cases ys) auto

lemma sorted_desc_id:
  "sorted_wrt (\<lambda>a b. f b \<le> f a) xs \<Longrightarrow> sorted_desc f xs = xs"
  by (induction xs) (auto simp: sorted_desc_Cons insort_desc_sorted_id)

lemma filter_insort_desc:
  "sorted_wrt (\<lambda>a b. f b \<le> f a) ys \<Longrightarrow>
   filter P (insort_desc f x ys) = (if P x then insort_desc f x (filter P ys) else filter P ys)"
proof (induction ys)
  case Nil
  then show ?case by simp
next
  case (Cons y ys)
  show ?case
  proof (cases "f y \<le> f x")
    case True
    have "\<forall>z\<in>set (y # ys). f z \<le> f x"
      using Cons.prems True order_trans by fastforce
    then have "\<forall>z\<in>set (filter P (y # ys)). f z \<le> f x" by simp
    then have "insort_desc f x (filter P (y # ys)) = x # filter P (y # ys)"
      by (rule insort_desc_sorted_id)
    then show ?thesis using True by simp
  next
    case False
    then show ?thesis using Cons by simp
  qed
qed

lemma filter_sorted_desc: "filter P (sorted_desc f xs) = sorted_desc f (filter P xs)"
  by (induction xs) (auto simp: sorted_desc_Cons filter_insort_desc sorted_sorted_desc)

lemma map_insort_desc:
  "map g (insort_desc (\<lambda>a. f (g a)) x ys) = insort_desc f (g x) (map g ys)"
  by (induction ys) auto

lemma map_sorted_desc: "map g (sorted_desc (\<lambda>a. f (g a)) xs) = sorted_desc f (map g xs)"
  by (induction xs) (auto simp: sorted_desc_Cons map_insort_desc)

lemma sorted_split:
  fixes f :: "'a \<Rightarrow> 'k::linorder"
  assumes "sorted_wrt (\<lambda>a b. f b \<le> f a) S"
    and "\<And>x y. x \<in> set S \<Longrightarrow> y \<in> set S \<Longrightarrow> P x \<Longrightarrow> \<not> P y \<Longrightarrow> f y < f x"
  shows "S = filter P S @ filter (\<lambda>x. \<not> P x) S"
  using assms
proof (induction S)
  case Nil
  then show ?case by simp
next
  case (Cons s S)
  have IH: "S = filter P S @ filter (\<lambda>x. \<not> P x) S"
    using Cons by auto
  show ?case
  proof (cases "P s")
    case True
    then show ?thesis using IH by simp
  next
    case False
    have "\<forall>y\<in>set S. \<not> P y"
    proof
      fix y assume y: "y \<in> set S"
      show "\<not> P y"
      proof
        assume "P y"
        then have "f s < f y" using Cons.prems(2)[of y s] y False by simp
        moreover have "f y \<le> f s" using Cons.prems(1) y by simp
        ultimately show False by order
      qed
    qed
    then have "filter P S = []" "filter (\<lambda>x. \<not> P x) S = S"
      by (auto simp: filter_empty_conv filter_id_conv)
    then show ?thesis using False by simp
  qed
qed

lemma take_sorted_desc_filter:
  assumes dom: "\<And>x y. x \<in> set xs \<Longrightarrow> y \<in> set xs \<Longrightarrow> P x \<Longrightarrow> \<not> P y \<Longrightarrow> f y < f x"
    and k: "k \<le> length (filter P xs)"
  shows "take k (sorted_desc f xs) = take k (sorted_desc f (filter P xs))"
proof -
  let ?S = "sorted_desc f xs"
  have "?S = filter P ?S @ filter (\<lambda>x. \<not> P x) ?S"
    by (rule sorted_split[OF sorted_sorted_desc]) (use dom in auto)
  then have "take k ?S = take k (filter P ?S @ filter (\<lambda>x. \<not> P x) ?S)" by simp
  also have "\<dots> = take k (filter P ?S)"
    using k by (simp add: filter_sorted_desc)
  finally show ?thesis by (simp add: filter_sorted_desc)
qed

lemma sorted_desc_hd_max:
  assumes "x \<in> set xs"
  shows "f x \<le> f (hd (sorted_desc f xs))"
proof -
  have s: "sorted_wrt (\<lambda>a b. f b \<le> f a) (sorted_desc f xs)" by (rule sorted_sorted_desc)
  have x: "x \<in> set (sorted_desc f xs)" using assms by simp
  then obtain y ys where e: "sorted_desc f xs = y # ys" by (cases "sorted_desc f xs") auto
  show ?thesis using s x unfolding e by auto
qed

subsection \<open>Top-k over the masked distribution, and the expansion of a hypothesis\<close>

lemma distinct_map_insort_desc:
  "distinct (map g (insort_desc f x ys)) \<longleftrightarrow> g x \<notin> g ` set ys \<and> distinct (map g ys)"
  by (induction ys) auto

lemma distinct_map_sorted_desc:
  "distinct (map g (sorted_desc f xs)) \<longleftrightarrow> distinct (map g xs)"
  by (induction xs) (auto simp: sorted_desc_Cons distinct_map_insort_desc)

lemma topk_ok:
  "k \<le> length xs \<Longrightarrow>
   topk order key k xs =
     Inr (take k (sorted_desc (\<lambda>p. key (fst p)) (map (\<lambda>i. (xs ! i, i)) (order xs))))"
  by (simp add: topk_def)

lemma lists_positionsD:
  "lists_positions order \<Longrightarrow> distinct (order xs) \<and> set (order xs) = {0..<length xs}"
  by (simp add: lists_positions_def)

lemma length_order: "lists_positions order \<Longrightarrow> length (order xs) = length xs"
proof -
  assume "lists_positions order"
  then have d: "distinct (order xs)" and s: "set (order xs) = {0..<length xs}"
    using lists_positionsD by blast+
  have "length (order xs) = card (set (order xs))" using d by (simp add: distinct_card)
  then show ?thesis by (simp add: s)
qed

lemma lists_positions_upt: "lists_positions (\<lambda>xs. [0..<length xs])"
  by (simp add: lists_positions_def)

lemma sum_exp_pos: "l \<noteq> [] \<Longrightarrow> 0 < (\<Sum>y\<leftarrow>l. exp (y::real))"
proof (induction l)
  case Nil
  then show ?case by simp
next
  case (Cons a l)
  have "0 \<le> (\<Sum>y\<leftarrow>l. exp y)" by (rule sum_list_nonneg) auto
  then show ?case by (simp add: add_pos_nonneg)
qed

lemma length_softmax [simp]: "length (softmax l) = length l"
  by (simp add: softmax_def)

lemma softmax_pos: "i < length l \<Longrightarrow> 0 < softmax l ! i"
proof -
  assume i: "i < length l"
  then have "l \<noteq> []" by auto
  then have "0 < (\<Sum>y\<leftarrow>l. exp y)" by (rule sum_exp_pos)
  then show ?thesis using i by (simp add: softmax_def)
qed

lemma length_mask_probs [simp]: "length (mask_probs m v) = length v"
  by (simp add: mask_probs_def)

lemma mask_probs_nth:
  "i < length v \<Longrightarrow>
   mask_probs m v ! i = (if i = start_index m \<or> i = dummy_index m then - 1 else v ! i)"
  by (cases "start_index m = dummy_index m") (auto simp: mask_probs_def nth_list_update)

lemma count_unmasked_eq:
  "length (filter (\<lambda>c. c \<noteq> d \<and> c \<noteq> s) [0..<n]) + (if d < n then 1 else 0)
     + (if s < n \<and> s \<noteq> d then 1 else 0) = n"
  by (induction n) auto

lemma count_unmasked:
  "n - 2 \<le> length (filter (\<lambda>c. c \<noteq> d \<and> c \<noteq> s) [0..<n])"
  using count_unmasked_eq[of d s n] by (simp split: if_splits)

lemma count_unmasked_order:
  assumes "distinct os" and "set os = {0..<n}"
  shows "n - 2 \<le> length (filter (\<lambda>c. c \<noteq> d \<and> c \<noteq> s) os)"
proof -
  let ?P = "\<lambda>c. c \<noteq> d \<and> c \<noteq> s"
  have A: "length (filter ?P os) = card ({x. ?P x} \<inter> set os)"
    using assms(1) by (rule distinct_length_filter)
  have B: "length (filter ?P [0..<n]) = card ({x. ?P x} \<inter> set [0..<n])"
    by (rule distinct_length_filter) simp
  have "length (filter ?P os) = length (filter ?P [0..<n])"
    unfolding A B using assms(2) by simp
  then show ?thesis using count_unmasked[of n d s] by simp
qed

text \<open>The selection among the masked probabilities of one decoder output.\<close>

lemma select_unmasked:
  assumes len: "k + 2 \<le> length v"
    and ord: "lists_positions order"
    and tk: "tk = take k (sorted_desc fst
                (map (\<lambda>i. (mask_probs m (softmax v) ! i, i)) (order (mask_probs m (softmax v)))))"
  shows "length tk = k"
    and "distinct (map snd tk)"
    and "\<And>p c. (p, c) \<in> set tk \<Longrightarrow>
           c < length v \<and> c \<noteq> dummy_index m \<and> c \<noteq> start_index m \<and> p = softmax v ! c \<and> 0 < p"
proof -
  let ?probs = "mask_probs m (softmax v)"
  let ?os = "order ?probs"
  let ?zs = "map (\<lambda>i. (?probs ! i, i)) ?os"
  let ?P = "\<lambda>pc. (0::real) < fst pc"
  have d: "distinct ?os" and so: "set ?os = {0..<length v}"
    using lists_positionsD[OF ord, of ?probs] by simp_all
  have mem: "\<And>p c. (p, c) \<in> set ?zs \<Longrightarrow> c < length v \<and> p = ?probs ! c"
    using so by auto
  have unm: "filter ?P ?zs = filter (\<lambda>pc. snd pc \<noteq> dummy_index m \<and> snd pc \<noteq> start_index m) ?zs"
  proof (rule filter_cong[OF refl])
    fix pc assume a: "pc \<in> set ?zs"
    obtain p c where pc: "pc = (p, c)" by (cases pc)
    from mem[of p c] a[unfolded pc]
    have c: "c < length v" and p: "p = ?probs ! c" by blast+
    have pv: "p = (if c = start_index m \<or> c = dummy_index m then - 1 else softmax v ! c)"
      unfolding p using c by (simp add: mask_probs_nth)
    have sp: "0 < softmax v ! c" using c by (rule softmax_pos)
    show "?P pc = (snd pc \<noteq> dummy_index m \<and> snd pc \<noteq> start_index m)"
    proof (cases "c = start_index m \<or> c = dummy_index m")
      case True
      then have "p = - 1" using pv by simp
      then show ?thesis using True by (auto simp: pc)
    next
      case False
      then have "p = softmax v ! c" using pv by simp
      then show ?thesis using False sp by (auto simp: pc)
    qed
  qed
  have ms: "map snd ?zs = ?os" by (simp add: comp_def)
  have "length (filter (\<lambda>c. c \<noteq> dummy_index m \<and> c \<noteq> start_index m) (map snd ?zs))
        = length (filter (\<lambda>pc. snd pc \<noteq> dummy_index m \<and> snd pc \<noteq> start_index m) ?zs)"
    unfolding filter_map by (simp add: comp_def)
  then have "length (filter ?P ?zs) = length (filter (\<lambda>c. c \<noteq> dummy_index m \<and> c \<noteq> start_index m) ?os)"
    unfolding unm ms by simp
  then have k: "k \<le> length (filter ?P ?zs)"
    using count_unmasked_order[OF d so, of "dummy_index m" "start_index m"] len by simp
  have dom: "\<And>x y. x \<in> set ?zs \<Longrightarrow> y \<in> set ?zs \<Longrightarrow> ?P x \<Longrightarrow> \<not> ?P y \<Longrightarrow> fst y < fst x"
    by simp
  have tk2: "tk = take k (sorted_desc fst (filter ?P ?zs))"
    unfolding tk by (rule take_sorted_desc_filter[OF dom k])
  show "length tk = k" using k by (simp add: tk2)
  have "distinct (map snd (sorted_desc fst ?zs))"
    unfolding distinct_map_sorted_desc ms by (rule d)
  then show "distinct (map snd tk)"
    unfolding tk by (simp add: take_map[symmetric] distinct_take)
  fix p c assume "(p, c) \<in> set tk"
  then have "(p, c) \<in> set (sorted_desc fst (filter ?P ?zs))"
    unfolding tk2 by (rule in_set_takeD)
  then have "(p, c) \<in> set (filter ?P ?zs)" by simp
  then have in_zs: "(p, c) \<in> set ?zs" and pos: "0 < p" by auto
  have c: "c < length v" and p: "p = ?probs ! c" using mem[OF in_zs] by blast+
  have pv: "p = (if c = start_index m \<or> c = dummy_index m then - 1 else softmax v ! c)"
    unfolding p using c by (simp add: mask_probs_nth)
  have nm: "\<not> (c = start_index m \<or> c = dummy_index m)"
  proof
    assume "c = start_index m \<or> c = dummy_index m"
    then have "p = - 1" using pv by simp
    then show False using pos by simp
  qed
  then have "p = softmax v ! c" using pv by simp
  then show "c < length v \<and> c \<noteq> dummy_index m \<and> c \<noteq> start_index m \<and> p = softmax v ! c \<and> 0 < p"
    using c nm pos by blast
qed

lemma length_decode_row:
  "alphabet_ok m \<Longrightarrow> length (fst (decode_row m i h enc)) = dict_len m"
  by (simp add: decode_row_def alphabet_ok_def Let_def split: prod.splits option.splits)

text \<open>With enough symbols left unmasked, the selection succeeds and is the list of the
  best characters.\<close>

lemma topk_probs_ok:
  assumes "alphabet_ok m" and "length v = dict_len m"
  shows "topk_probs m (mask_probs m (softmax v)) =
     Inr (take (beam_size m) (sorted_desc fst
            (map (\<lambda>i. (mask_probs m (softmax v) ! i, i)) (topk_order m (mask_probs m (softmax v))))))"
proof -
  let ?tk = "take (beam_size m) (sorted_desc fst
            (map (\<lambda>i. (mask_probs m (softmax v) ! i, i)) (topk_order m (mask_probs m (softmax v)))))"
  have len: "beam_size m + 2 \<le> length v" and ord: "lists_positions (topk_order m)"
    using assms by (simp_all add: alphabet_ok_def)
  have pos: "\<And>p c. (p, c) \<in> set ?tk \<Longrightarrow> 0 < p"
    using select_unmasked(3)[OF len ord refl] by blast
  have "\<not> list_ex (\<lambda>(p, c). p < 0) ?tk"
    using pos by (fastforce simp: list_ex_iff)
  moreover have "topk (topk_order m) id (beam_size m) (mask_probs m (softmax v)) = Inr ?tk"
    using len by (simp add: topk_def)
  ultimately show ?thesis by (simp add: topk_probs_def)
qed

lemma fold_expand_split:
  "fold (\<lambda>(p, c) (ns, fc). if c = e then (ns, fc @ [F p c]) else (ns @ [G p c], fc)) tk (ns, fc)
   = (ns @ map (\<lambda>(p, c). G p c) (filter (\<lambda>(p, c). c \<noteq> e) tk),
      fc @ map (\<lambda>(p, c). F p c) (filter (\<lambda>(p, c). c = e) tk))"
  by (induction tk arbitrary: ns fc) auto

lemma expand_eq:
  assumes "alphabet_ok m"
  shows "expand m return_loss target enc i h (ns, fc) =
     Inr (ns @ continuations m return_loss (target ! 0 ! i) enc h,
          fc @ terminations m return_loss (target ! 0 ! i) enc h)"
proof -
  obtain seq hid score seq_loss where h: "h = (seq, hid, score, seq_loss)" by (cases h) auto
  obtain ov hs where d: "decode_row m (last seq) hid enc = (ov, hs)" by (cases "decode_row m (last seq) hid enc")
  have l: "length ov = dict_len m" using length_decode_row[OF assms, of "last seq" hid enc] by (simp add: d)
  show ?thesis
    unfolding expand_def h
    by (simp add: d topk_probs_ok[OF assms l] Let_def fold_expand_split continuations_def
        terminations_def best_characters_def next_loss_def)
qed

lemma expand_all_eq:
  assumes "alphabet_ok m"
  shows "expand_all m return_loss target enc i hs (ns, fc) =
     Inr (ns @ concat (map (continuations m return_loss (target ! 0 ! i) enc) hs),
          fc @ concat (map (terminations m return_loss (target ! 0 ! i) enc) hs))"
  by (induction hs arbitrary: ns fc) (simp_all add: expand_eq[OF assms])


subsection \<open>Rows, blocks and flat positions\<close>

lemma sequence_err_map_Inr:
  "(\<And>x. x \<in> set xs \<Longrightarrow> f x = Inr (g x)) \<Longrightarrow> sequence_err (map f xs) = Inr (map g xs)"
  by (induction xs) auto

lemma decode_rows:
  assumes "\<not> (use_attention m \<and> ctx = None)"
    and "length li = R" and "length hs = R"
    and "\<And>cs. ctx = Some cs \<Longrightarrow> length cs = R"
  shows "decode m li hs ctx =
     Inr (map (\<lambda>r. decode_row m (li ! r) (hs ! r) (row_context ctx r)) [0..<R])"
proof (cases ctx)
  case None
  have "map (\<lambda>(i, h, c). decode_row m i h c) (zip li (zip hs (replicate (length li) None)))
        = map (\<lambda>r. decode_row m (li ! r) (hs ! r) None) [0..<R]"
    using assms(2,3) by (auto simp: list_eq_iff_nth_eq)
  then show ?thesis using assms(1) None by (simp add: decode_def row_context_def)
next
  case (Some cs)
  have l: "length cs = R" using assms(4) Some by simp
  have "map (\<lambda>(i, h, c). decode_row m i h c) (zip li (zip hs (map Some cs)))
        = map (\<lambda>r. decode_row m (li ! r) (hs ! r) (Some (cs ! r))) [0..<R]"
    using assms(2,3) l by (auto simp: list_eq_iff_nth_eq)
  then show ?thesis using Some by (simp add: decode_def row_context_def)
qed

lemma drop_concat_uniform:
  "\<forall>xs\<in>set xss. length xs = b \<Longrightarrow> drop (k * b) (concat xss) = concat (drop k xss)"
proof (induction xss arbitrary: k)
  case Nil
  then show ?case by simp
next
  case (Cons xs xss)
  show ?case
  proof (cases k)
    case 0
    then show ?thesis by simp
  next
    case (Suc k')
    have "drop (k * b) (xs @ concat xss) = drop (k' * b) (concat xss)"
      using Cons.prems by (simp add: Suc)
    then show ?thesis using Cons.IH[of k'] Cons.prems by (simp add: Suc)
  qed
qed

lemma take_concat_uniform:
  "\<forall>xs\<in>set xss. length xs = b \<Longrightarrow> take (k * b) (concat xss) = concat (take k xss)"
proof (induction xss arbitrary: k)
  case Nil
  then show ?case by simp
next
  case (Cons xs xss)
  show ?case
  proof (cases k)
    case 0
    then show ?thesis by simp
  next
    case (Suc k')
    have "take (k * b) (xs @ concat xss) = xs @ take (k' * b) (concat xss)"
      using Cons.prems by (simp add: Suc)
    then show ?thesis using Cons.IH[of k'] Cons.prems by (simp add: Suc)
  qed
qed

lemma view_concat:
  assumes "\<forall>xs\<in>set xss. length xs = b" and "i < n"
  shows "view n (b * b) (concat xss) ! i = concat (take b (drop (i * b) xss))"
proof -
  have d: "drop (i * (b * b)) (concat xss) = concat (drop (i * b) xss)"
    using drop_concat_uniform[OF assms(1), of "i * b"] by (simp add: mult.assoc)
  have "\<forall>xs\<in>set (drop (i * b) xss). length xs = b"
    using assms(1) by (meson in_set_dropD)
  then have "take (b * b) (concat (drop (i * b) xss)) = concat (take b (drop (i * b) xss))"
    by (rule take_concat_uniform)
  then show ?thesis using assms(2) by (simp add: view_def d)
qed

lemma length_view [simp]: "length (view n c xs) = n"
  by (simp add: view_def)

lemma nth_concat_uniform:
  "\<forall>xs\<in>set xss. length xs = b \<Longrightarrow> q < length xss * b \<Longrightarrow>
   concat xss ! q = xss ! (q div b) ! (q mod b)"
proof (induction xss arbitrary: q)
  case Nil
  then show ?case by simp
next
  case (Cons xs xss)
  have b: "0 < b" using Cons.prems(2) by (cases b) auto
  show ?case
  proof (cases "q < b")
    case True
    then show ?thesis using Cons.prems by (simp add: nth_append)
  next
    case False
    define q' where "q' = q - b"
    have q: "q = q' + b" using False by (simp add: q'_def)
    have lt: "q' < length xss * b" using Cons.prems(2) by (simp add: q)
    have lx: "length xs = b" using Cons.prems(1) by simp
    have "concat (xs # xss) ! q = concat xss ! q'"
      by (simp add: q nth_append lx)
    also have "\<dots> = xss ! (q' div b) ! (q' mod b)"
      using Cons.IH[OF _ lt] Cons.prems(1) by simp
    also have "\<dots> = (xs # xss) ! (q div b) ! (q mod b)"
      using b by (simp add: q)
    finally show ?thesis .
  qed
qed

lemma sorted_desc_index:
  assumes "length xs = length ys" and "\<And>q. q < length ys \<Longrightarrow> xs ! q = g (ys ! q)"
  shows "map (\<lambda>q. ys ! q) (map snd (sorted_desc (\<lambda>p. k (fst p)) (zip xs [0..<length xs])))
         = sorted_desc (\<lambda>y. k (g y)) ys"
proof -
  let ?h = "\<lambda>q. (g (ys ! q), q)"
  have z: "zip xs [0..<length xs] = map ?h [0..<length ys]"
  proof (rule nth_equalityI)
    show "length (zip xs [0..<length xs]) = length (map ?h [0..<length ys])"
      using assms(1) by simp
  next
    fix i assume "i < length (zip xs [0..<length xs])"
    then have i: "i < length ys" using assms(1) by simp
    then show "zip xs [0..<length xs] ! i = map ?h [0..<length ys] ! i"
      using assms by simp
  qed
  have "sorted_desc (\<lambda>p. k (fst p)) (map ?h [0..<length ys])
        = map ?h (sorted_desc (\<lambda>q. k (fst (?h q))) [0..<length ys])"
    by (rule map_sorted_desc[symmetric])
  then have "map snd (sorted_desc (\<lambda>p. k (fst p)) (map ?h [0..<length ys]))
        = map snd (map ?h (sorted_desc (\<lambda>q. k (fst (?h q))) [0..<length ys]))"
    by (rule arg_cong)
  also have "\<dots> = sorted_desc (\<lambda>q. k (g (ys ! q))) [0..<length ys]"
    by (simp add: comp_def)
  finally have "map (\<lambda>q. ys ! q) (map snd (sorted_desc (\<lambda>p. k (fst p)) (zip xs [0..<length xs])))
        = map (\<lambda>q. ys ! q) (sorted_desc (\<lambda>q. k (g (ys ! q))) [0..<length ys])"
    unfolding z by simp
  also have "\<dots> = sorted_desc (\<lambda>y. k (g y)) (map (\<lambda>q. ys ! q) [0..<length ys])"
    by (rule map_sorted_desc[of "\<lambda>q. ys ! q" "\<lambda>y. k (g y)"])
  also have "map (\<lambda>q. ys ! q) [0..<length ys] = ys" by (rule map_nth)
  finally show ?thesis .
qed

lemma map_filter_index:
  "map (\<lambda>c. g (xs ! c)) (filter (\<lambda>c. P (xs ! c)) [0..<length xs]) = map g (filter P xs)"
proof -
  have "map g (filter P (map (\<lambda>c. xs ! c) [0..<length xs]))
        = map (\<lambda>c. g (xs ! c)) (filter (\<lambda>c. P (xs ! c)) [0..<length xs])"
    by (simp add: filter_map comp_def)
  then show ?thesis by (simp add: map_nth)
qed

lemma div_block_iff:
  assumes "0 < (b::nat)"
  shows "r div b = i \<longleftrightarrow> i * b \<le> r \<and> r < i * b + b"
proof
  assume "r div b = i"
  then have "r = i * b + r mod b" by (metis div_mult_mod_eq)
  moreover have "r mod b < b" using assms by simp
  ultimately show "i * b \<le> r \<and> r < i * b + b" by linarith
next
  assume "i * b \<le> r \<and> r < i * b + b"
  then show "r div b = i" by (intro div_nat_eqI) (simp_all add: mult.commute)
qed

lemma filter_div_block:
  assumes "0 < b" and "i < n"
  shows "filter (\<lambda>r. r div b = i) [0..<n * b] = [i * b..<i * b + b]"
proof (rule sorted_distinct_set_unique)
  have le: "i * b + b \<le> n * b"
  proof -
    have "Suc i * b \<le> n * b" using assms(2) by (intro mult_le_mono1) simp
    then show ?thesis by (simp add: add.commute)
  qed
  show "set (filter (\<lambda>r. r div b = i) [0..<n * b]) = set [i * b..<i * b + b]"
    using le by (auto simp: div_block_iff[OF assms(1)])
qed (simp_all add: sorted_wrt_filter)

subsection \<open>The index matrix\<close>

lemma fold_write_run:
  "off + n + length xs \<le> length r \<Longrightarrow>
   fold (\<lambda>(i, x) r. r[i + off := g x]) (enumerate n xs) r =
     take (off + n) r @ map g xs @ drop (off + n + length xs) r"
proof (induction xs arbitrary: n r)
  case Nil
  then show ?case by simp
next
  case (Cons x xs)
  have len: "off + Suc n + length xs \<le> length (r[n + off := g x])"
    using Cons.prems by simp
  have tk: "take (off + Suc n) (r[n + off := g x]) = take (off + n) r @ [g x]"
    using Cons.prems by (simp add: take_Suc_conv_app_nth add.commute)
  show ?case
    using Cons.IH [OF len] tk by (simp add: add.commute)
qed

lemma char_row_layout:
  assumes "length token + (of_bool e + of_bool s) \<le> W"
  shows "char_row m e s pf W token =
     replicate (if pf then W - (length token + (of_bool e + of_bool s)) else 0) (dummy_index m)
     @ (if s then [start_index m] else []) @ map (get_idx_for_item m) token
     @ (if e then [end_index m] else [])
     @ replicate (if pf then 0 else W - (length token + (of_bool e + of_bool s))) (dummy_index m)"
proof -
  define c :: nat where "c = of_bool e + of_bool s"
  define dif where "dif = W - (length token + c)"
  define shift where "shift = (if pf then dif else 0)"
  define r0 where "r0 = replicate W (dummy_index m)"
  define r1 where "r1 = (if s then r0[0 + shift := start_index m] else r0)"
  define r2 where "r2 = (if e then r1[length token + of_bool s + shift := end_index m] else r1)"
  have W: "W = shift + of_bool s + length token + of_bool e + (dif - shift)"
    using assms by (auto simp: c_def dif_def shift_def)
  have l2: "length r2 = W" by (simp add: r2_def r1_def r0_def)
  have cr: "char_row m e s pf W token =
     fold (\<lambda>(index, letter) r. r[index + (of_bool s + shift) := get_idx_for_item m letter]) (enumerate 0 token) r2"
    unfolding char_row_def Let_def r2_def r1_def r0_def shift_def dif_def c_def
    by (simp add: add.assoc)
  have "char_row m e s pf W token = take (of_bool s + shift) r2 @ map (get_idx_for_item m) token @ drop (of_bool s + shift + length token) r2"
    unfolding cr using fold_write_run[of "of_bool s + shift" 0 token r2 "get_idx_for_item m"] l2 W by simp
  moreover have "take (of_bool s + shift) r2 = replicate shift (dummy_index m) @ (if s then [start_index m] else [])"
  proof (cases s)
    case True
    have "shift < W" using W True by simp
    then show ?thesis using True
      by (simp add: r2_def r1_def r0_def take_Suc_conv_app_nth)
  next
    case False
    have "shift \<le> W" using W by simp
    then show ?thesis using False
      by (simp add: r2_def r1_def r0_def min_def)
  qed
  moreover have "drop (of_bool s + shift + length token) r2 = (if e then [end_index m] else []) @ replicate (dif - shift) (dummy_index m)"
  proof (cases e)
    case True
    define k where "k = of_bool s + shift + length token"
    have lt: "k < W" using W True by (simp add: k_def)
    have l1: "length r1 = W" by (simp add: r1_def r0_def)
    have r2k: "r2 = r1[k := end_index m]"
      using True by (simp add: r2_def k_def add.commute add.left_commute)
    have "drop k r2 = end_index m # drop (Suc k) r1"
      unfolding r2k using lt l1 by (simp add: drop_update_swap Cons_nth_drop_Suc[symmetric])
    moreover have "drop (Suc k) r1 = replicate (W - Suc k) (dummy_index m)"
      by (cases s) (simp_all add: r1_def r0_def k_def)
    moreover have "W - Suc k = dif - shift" using W True by (simp add: k_def)
    ultimately show ?thesis using True by (simp add: k_def)
  next
    case False
    have "W - (of_bool s + shift + length token) = dif - shift" using W False by simp
    then show ?thesis using False
      by (cases s) (simp_all add: r2_def r1_def r0_def)
  qed
  ultimately show ?thesis
    by (auto simp: shift_def dif_def c_def)
qed


lemma char_row_expected:
  assumes "length token + (of_bool e + of_bool s) \<le> W"
  shows "char_row m e s pf W token = expected_row m e s pf W token"
  unfolding char_row_layout[OF assms] expected_row_def Let_def
  by (cases e; cases s; cases pf) simp_all

text \<open>
  Claim C7. For a non-empty list of strings, \<open>words_to_char_indices\<close> returns one row per
  string; every row has the length \<open>max(min_length, longest string + inserted symbols)\<close>
  and consists of the start symbol (if asked for), the characters of the string, the end
  symbol (if asked for), and the padding index in all remaining cells, which lie in front
  of these or behind them. For \<open>["ab", "c"]\<close> with both symbols and padding at the back
  the rows are \<open><S> a b <E>\<close> and \<open><S> c <E> <pad>\<close>.
\<close>

theorem words_to_char_indices_layout:
  "(tokens \<noteq> [] \<longrightarrow>
      (let width = max (case seq_length of None \<Rightarrow> 0 | Some n \<Rightarrow> n)
                     (Max (set (map length tokens)) + of_bool end_sym + of_bool start_sym)
       in words_to_char_indices m tokens end_sym start_sym pad_front seq_length =
            Inr (map (expected_row m end_sym start_sym pad_front width) tokens)
          \<and> (\<forall>token \<in> set tokens.
                length (expected_row m end_sym start_sym pad_front width token) = width)))
   \<and> words_to_char_indices m [''ab'', ''c''] True True False None =
       Inr [[start_index m, get_idx_for_item m CHR ''a'', get_idx_for_item m CHR ''b'', end_index m],
            [start_index m, get_idx_for_item m CHR ''c'', end_index m, dummy_index m]]"
proof (intro conjI impI)
  assume ne: "tokens \<noteq> []"
  define c :: nat where "c = of_bool end_sym + of_bool start_sym"
  define width where
    "width = max (case seq_length of None \<Rightarrow> 0 | Some n \<Rightarrow> n) (Max (set (map length tokens)) + c)"
  have fit: "length token + c \<le> width" if "token \<in> set tokens" for token
  proof -
    have "length token \<le> Max (set (map length tokens))" using that by simp
    then show ?thesis by (simp add: width_def)
  qed
  have w: "(case seq_length of None \<Rightarrow> Max (set (map length tokens)) + c
            | Some s \<Rightarrow> if s = 0 then Max (set (map length tokens)) + c
                        else max s (Max (set (map length tokens)) + c)) = width"
    by (auto simp: width_def split: option.splits)
  have "words_to_char_indices m tokens end_sym start_sym pad_front seq_length =
          Inr (map (char_row m end_sym start_sym pad_front width) tokens)"
    unfolding words_to_char_indices_def Let_def c_def[symmetric] w using ne by simp
  moreover have "map (char_row m end_sym start_sym pad_front width) tokens =
      map (expected_row m end_sym start_sym pad_front width) tokens"
    using fit by (auto simp: c_def intro!: char_row_expected)
  moreover have "length (expected_row m end_sym start_sym pad_front width token) = width"
    if "token \<in> set tokens" for token
    using fit[OF that] by (auto simp: expected_row_def c_def Let_def)
  ultimately show "let width = max (case seq_length of None \<Rightarrow> 0 | Some n \<Rightarrow> n)
                     (Max (set (map length tokens)) + of_bool end_sym + of_bool start_sym)
       in words_to_char_indices m tokens end_sym start_sym pad_front seq_length =
            Inr (map (expected_row m end_sym start_sym pad_front width) tokens)
          \<and> (\<forall>token \<in> set tokens.
                length (expected_row m end_sym start_sym pad_front width token) = width)"
    by (simp add: width_def c_def Let_def add.assoc)
next
  show "words_to_char_indices m [''ab'', ''c''] True True False None =
       Inr [[start_index m, get_idx_for_item m CHR ''a'', get_idx_for_item m CHR ''b'', end_index m],
            [start_index m, get_idx_for_item m CHR ''c'', end_index m, dummy_index m]]"
    by (simp add: words_to_char_indices_def char_row_def Let_def)
qed

theorem words_to_char_indices_layout_witness:
  "[''ab'', ''c''] \<noteq> []
   \<and> words_to_char_indices (toy_model []) [''ab'', ''c''] True True True (Some 6) =
       Inr [[1, 1, 2, 4, 5, 3], [1, 1, 1, 2, 6, 3]]
   \<and> words_to_char_indices (toy_model []) [''ab'', ''c''] True True False None =
       Inr [[2, 4, 5, 3], [2, 6, 3, 1]]"
  using words_to_char_indices_layout[of "[''ab'', ''c'']" "Some 6" True True "toy_model []" True]
  by (simp add: expected_row_def toy_model_def Let_def eval_nat_numeral)

subsection \<open>The model object after a prediction\<close>

lemma fst_predict:
  "fst (predict m sentences label_name mini_batch_size return_loss) =
     (if beam_size m = 1 then m\<lparr>batching_in_rnn := False\<rparr> else m)"
  unfolding predict_def Let_def by (rule fst_conv)

lemma export_follows:
  "state_batching_in_rnn (get_state_dict m) = batching_in_rnn m"
  by (simp add: get_state_dict_def)

text \<open>
  Claim C9. Calling \<open>predict\<close> on a model whose \<open>beam_size\<close> is 1 leaves the model with
  \<open>batching_in_rnn = False\<close> and otherwise as it was, whatever the sentences and whether or
  not the call raises. The exported state holds the attribute's value: the value the model
  had before the call when exported before it, and \<open>False\<close> when exported after it. A
  further call of \<open>predict\<close> leaves the model in that same state, and no call of
  \<open>predict\<close>, on a model of any beam size, switches the attribute back on.
\<close>

theorem predict_beam_one_switches_batching_off:
  "beam_size m = 1 \<Longrightarrow>
     fst (predict m sentences label_name mini_batch_size return_loss) = m\<lparr>batching_in_rnn := False\<rparr>
     \<and> state_batching_in_rnn (get_state_dict m) = batching_in_rnn m
     \<and> state_batching_in_rnn
           (get_state_dict (fst (predict m sentences label_name mini_batch_size return_loss)))
         = batching_in_rnn (fst (predict m sentences label_name mini_batch_size return_loss))
     \<and> state_batching_in_rnn
           (get_state_dict (fst (predict m sentences label_name mini_batch_size return_loss))) = False
     \<and> fst (predict (fst (predict m sentences label_name mini_batch_size return_loss))
              sentences' label_name' mini_batch_size' return_loss') = m\<lparr>batching_in_rnn := False\<rparr>
     \<and> (\<forall>m'. \<not> batching_in_rnn m' \<longrightarrow>
            \<not> batching_in_rnn (fst (predict m' sentences' label_name' mini_batch_size' return_loss')))"
  by (simp add: fst_predict export_follows)

theorem predict_beam_one_switches_batching_off_witness:
  "beam_size ((toy_model toy_logits)\<lparr>batching_in_rnn := True\<rparr>) = 1
   \<and> batching_in_rnn ((toy_model toy_logits)\<lparr>batching_in_rnn := True\<rparr>)
   \<and> state_batching_in_rnn (get_state_dict ((toy_model toy_logits)\<lparr>batching_in_rnn := True\<rparr>)) = True
   \<and> fst (predict ((toy_model toy_logits)\<lparr>batching_in_rnn := True\<rparr>)
             [[word ''a'']] ''predicted'' 16 False)
       = (toy_model toy_logits)\<lparr>batching_in_rnn := False\<rparr>
   \<and> state_batching_in_rnn
         (get_state_dict (fst (predict ((toy_model toy_logits)\<lparr>batching_in_rnn := True\<rparr>)
                                 [[word ''a'']] ''predicted'' 16 False)))
       = False
   \<and> fst (predict (fst (predict ((toy_model toy_logits)\<lparr>batching_in_rnn := True\<rparr>)
                           [[word ''a'']] ''predicted'' 16 False))
              [[word ''b'']] ''predicted'' 16 False)
       = (toy_model toy_logits)\<lparr>batching_in_rnn := False\<rparr>"
proof -
  let ?m = "(toy_model toy_logits)\<lparr>batching_in_rnn := True\<rparr>"
  have b: "beam_size ?m = 1" by (simp add: toy_model_def)
  have t: "batching_in_rnn ?m" by simp
  have e: "state_batching_in_rnn (get_state_dict ?m) = True"
    by (simp add: get_state_dict_def)
  have u: "?m\<lparr>batching_in_rnn := False\<rparr> = (toy_model toy_logits)\<lparr>batching_in_rnn := False\<rparr>"
    by simp
  show ?thesis
    using predict_beam_one_switches_batching_off[OF b, of "[[word ''a'']]" "''predicted''" 16 False
        "[[word ''b'']]" "''predicted''" 16 False] b t e
    unfolding u by blast
qed

subsection \<open>The small model, evaluated\<close>

lemma toy_fields [simp]:
  "beam_size (toy_model l) = 1" "dummy_index (toy_model l) = 1" "start_index (toy_model l) = 2"
  "end_index (toy_model l) = 3" "dict_len (toy_model l) = 7" "use_attention (toy_model l) = False"
  "encoder_embeddings (toy_model l) = False" "bi_encoding (toy_model l) = False"
  "start_symbol (toy_model l) = True" "end_symbol (toy_model l) = False"
  "dependent_on_input (toy_model l) = True" "batching_in_rnn (toy_model l) = False"
  "character_decoder (toy_model l) = (\<lambda>v. l)"
  "topk_order (toy_model l) = (\<lambda>xs. [0..<length xs])"
  "topk_order_scores (toy_model l) = (\<lambda>xs. [0..<length xs])"
  "label_type (toy_model l) = ''lemma''"
  "encoder_rnn (toy_model l) = (\<lambda>xs. (xs, [[0]]))"
  "encoder_character_embedding (toy_model l) = (\<lambda>i. [real i])"
  "get_idx_for_item (toy_model l) = (\<lambda>c. if c = CHR ''a'' then 4 else if c = CHR ''b'' then 5
                                else if c = CHR ''c'' then 6 else 0)"
  "get_item_for_index (toy_model l) = (\<lambda>i. [''<unk>'', ''<>'', ''<S>'', ''<E>'', ''a'', ''b'', ''c''] ! i)"
  by (simp_all add: toy_model_def)

lemma toy_update [simp]: "(toy_model l)\<lparr>batching_in_rnn := False\<rparr> = toy_model l"
  by (simp add: toy_model_def)

lemma toy_decode_row [simp]: "decode_row (toy_model l) i h enc = (l, h)"
  by (simp add: decode_row_def toy_model_def Let_def split: option.splits)

lemma softmax_toy_logits:
  "softmax toy_logits = [1/14, 1/14, 1/14, 2/14, 5/14, 3/14, 1/14]"
  by (simp add: softmax_def toy_logits_def)

lemma softmax_toy_logits_end:
  "softmax toy_logits_end = [1/14, 1/14, 1/14, 5/14, 2/14, 3/14, 1/14]"
  by (simp add: softmax_def toy_logits_end_def)

lemma upt7: "[0..<7] = [0, 1, 2, 3, 4, 5, 6::nat]"
  by (simp add: upt_rec)


lemma toy_best_end:
  "best_characters (toy_model toy_logits_end) enc (seq, hid, score, loss) = [(5/14, 3)]"
  by (simp add: best_characters_def softmax_toy_logits_end mask_probs_def upt7 sorted_desc_def Let_def)

lemma toy_alphabet_ok: "length l = 7 \<Longrightarrow> alphabet_ok (toy_model l)"
  by (simp add: alphabet_ok_def lists_positions_upt)

lemma toy_topk:
  assumes "length l = 7"
  shows "topk_probs (toy_model l) (mask_probs (toy_model l) (softmax l)) =
           Inr (best_characters (toy_model l) enc (seq, hid, score, loss))"
  using topk_probs_ok[OF toy_alphabet_ok[OF assms], of l] assms
  by (simp add: best_characters_def Let_def)

lemma len_toy [simp]: "length toy_logits = 7" "length toy_logits_end = 7"
  by (simp_all add: toy_logits_def toy_logits_end_def)

lemma toy_search_end:
  "token_search (toy_model toy_logits_end) False 2 tok h0 enc =
     Inr ([3], lp_div (lp_add (torch_log (5/14)) (torch_log (5/14))) (length [3::nat] + 1), 0)"
  by (simp add: token_search_def toy_topk[of _ enc "[]" "[]" MInf 0] toy_best_end first_hypotheses_def
      upt_rec expand_all_eq[OF toy_alphabet_ok] continuations_def terminations_def
      next_loss_def finish_token_def best_candidate_def sorted_desc_def)


lemma toy_hidden:
  "token_hidden (toy_model l) (word ''a'') = Inr ([[0]], Some [[2], [4]])"
  by (simp add: token_hidden_def words_to_char_indices_def char_row_def word_def Let_def)

lemma remove_word [simp]: "remove_labels ty (word s) = word s"
  by (simp add: remove_labels_def word_def)

lemma toy_predict_token_end:
  "predict_token (toy_model toy_logits_end) ''predicted'' False 2 (word ''a'') =
     Inr (add_tag ''predicted'' ''<E>'' (word ''a''), 0)"
  by (simp add: predict_token_def toy_hidden toy_search_end lemma_of_def)


lemma word_fields [simp]: "token_text (word s) = s"
  by (simp add: word_def)

subsection \<open>The sentences after a prediction\<close>

lemma add_tag_remove_labels:
  "add_tag ty v (remove_labels ty t) = t\<lparr>tags := (tags t)(ty \<mapsto> v)\<rparr>"
  by (simp add: add_tag_def remove_labels_def)

lemma run_all_Inr:
  "run_all f xs = Inr (ys, l) \<Longrightarrow> list_all2 (\<lambda>x y. \<exists>l'. f x = Inr (y, l')) xs ys"
proof (induction xs arbitrary: ys l)
  case Nil
  then show ?case by simp
next
  case (Cons x xs)
  from Cons.prems obtain y l1 ys' l2 where
    fx: "f x = Inr (y, l1)" and r: "run_all f xs = Inr (ys', l2)" and ys: "ys = y # ys'"
    by (auto split: sum.splits prod.splits)
  show ?case using fx Cons.IH[OF r] by (auto simp: ys)
qed

lemma sequence_err_length: "sequence_err xs = Inr ys \<Longrightarrow> length ys = length xs"
proof (induction xs arbitrary: ys)
  case Nil
  then show ?case by simp
next
  case (Cons x xs)
  from Cons.prems obtain v vs where "x = Inr v" "sequence_err xs = Inr vs" "ys = v # vs"
    by (auto split: sum.splits)
  then show ?case using Cons.IH by simp
qed

lemma predict_token_annotates:
  assumes "predict_token m label_name return_loss max_length t = Inr (t', l)"
  shows "\<exists>lemma. t' = t\<lparr>tags := (tags t)(label_name \<mapsto> lemma)\<rparr>"
proof -
  from assms obtain best where "t' = add_tag label_name (lemma_of m (fst best)) (remove_labels label_name t)"
    by (auto simp: predict_token_def Let_def split: sum.splits prod.splits)
  then show ?thesis by (auto simp: add_tag_remove_labels)
qed

lemma sentence_annotated:
  assumes "run_all (predict_token m label_name return_loss max_length) s = Inr (s', l)"
  shows "annotated label_name s s'"
proof -
  have "list_all2 (\<lambda>x y. \<exists>l'. predict_token m label_name return_loss max_length x = Inr (y, l')) s s'"
    using assms by (rule run_all_Inr)
  then have "list_all2 (\<lambda>x y. \<exists>lemma. y = x\<lparr>tags := (tags x)(label_name \<mapsto> lemma)\<rparr>) s s'"
    by (rule list_all2_mono) (auto dest: predict_token_annotates)
  then show ?thesis
    by (auto simp: annotated_def list_all2_conv_all_nth)
qed

lemma batch_annotated_tokens:
  assumes "run_all (run_all (predict_token m label_name return_loss max_length)) batch = Inr (batch', l)"
  shows "list_all2 (annotated label_name) batch batch'"
proof -
  have "list_all2 (\<lambda>x y. \<exists>l'. run_all (predict_token m label_name return_loss max_length) x = Inr (y, l'))
          batch batch'"
    using assms by (rule run_all_Inr)
  then show ?thesis
    by (rule list_all2_mono) (auto dest: sentence_annotated)
qed

lemma annotate_annotated:
  "length (concat ss) \<le> length ls \<Longrightarrow>
   list_all2 (annotated ty) ss (annotate ty ls (map (map (remove_labels ty)) ss))"
proof (induction ss arbitrary: ls)
  case Nil
  then show ?case by simp
next
  case (Cons s ss)
  have l: "length s \<le> length ls" using Cons.prems by simp
  have "annotated ty s (map (\<lambda>(t, l). add_tag ty l t)
          (zip (map (remove_labels ty) s) (take (length s) ls)))"
    using l by (auto simp: annotated_def add_tag_remove_labels)
  moreover have "list_all2 (annotated ty) ss
      (annotate ty (drop (length s) ls) (map (map (remove_labels ty)) ss))"
    using Cons.prems by (intro Cons.IH) simp
  ultimately show ?case by simp
qed

lemma fold_set_aside_length:
  "length (fst (fold (set_aside m return_loss target j st ov) ps (fc, lp))) = length fc"
proof (induction ps arbitrary: fc lp)
  case Nil
  then show ?case by simp
next
  case (Cons a ps)
  obtain r c where a: "a = (r, c)" by (cases a)
  obtain fc1 lp1 where s: "set_aside m return_loss target j st ov (r, c) (fc, lp) = (fc1, lp1)"
    by (cases "set_aside m return_loss target j st ov (r, c) (fc, lp)")
  have "length fc1 = length fc" using s by (auto simp: set_aside_def Let_def)
  then show ?case using Cons.IH[of fc1 lp1] by (simp add: a s)
qed

lemma beam_step_length:
  assumes "beam_step m return_loss target enc n j (st, fc) = Inr (st', fc')"
  shows "length fc' = length fc"
proof -
  from assms obtain ov ps lp where "fc' = fst (fold (set_aside m return_loss target j st ov) ps (fc, lp))"
    by (auto simp: beam_step_def Let_def split: sum.splits)
  then show ?thesis by (simp add: fold_set_aside_length)
qed

lemma beam_loop_length:
  "beam_loop m return_loss target enc n js (st, fc) = Inr (st', fc') \<Longrightarrow> length fc' = length fc"
proof (induction js arbitrary: st fc)
  case Nil
  then show ?case by simp
next
  case (Cons j js)
  from Cons.prems obtain st1 fc1 where
    s: "beam_step m return_loss target enc n j (st, fc) = Inr (st1, fc1)"
    and r: "beam_loop m return_loss target enc n js (st1, fc1) = Inr (st', fc')"
    by (auto split: sum.splits)
  show ?case using Cons.IH[OF r] beam_step_length[OF s] by simp
qed

lemma append_unfinished_length:
  assumes "append_unfinished m return_loss max_length n st fc = Inr fc'" and "length fc = n"
  shows "length fc' = n"
proof -
  from assms(1) obtain best where
    b: "sequence_err (map (topk (topk_order_scores m) lp_key 1) (view n (beam_size m) (scores st))) = Inr best"
    and f: "length fc' = length (zip [0..<length fc] (zip best fc))"
    by (auto simp: append_unfinished_def split: sum.splits if_splits)
  have "length best = n" using sequence_err_length[OF b] by (simp add: view_def)
  then show ?thesis using f assms(2) by simp
qed

lemma batch_search_length:
  assumes "batch_search m return_loss max_length toks hidden enc = Inr os"
  shows "length os = length toks"
proof -
  from assms obtain st0 target benc st' fc' fc'' where
    l: "beam_loop m return_loss target benc (length toks) [1..<max_length]
          (st0, replicate (length toks) []) = Inr (st', fc')"
    and a: "append_unfinished m return_loss max_length (length toks) st' fc' = Inr fc''"
    and s: "sequence_err (map best_candidate fc'') = Inr os"
    by (auto simp: batch_search_def Let_def split: sum.splits prod.splits)
  have "length fc' = length toks" using beam_loop_length[OF l] by simp
  then have "length fc'' = length toks" using append_unfinished_length[OF a] by simp
  then show ?thesis using sequence_err_length[OF s] by simp
qed

lemma batch_annotated:
  assumes "predict_batch m label_name return_loss max_length batch = Inr (batch', l)"
  shows "list_all2 (annotated label_name) batch batch'"
proof -
  let ?b = "map (map (remove_labels label_name)) batch"
  from assms obtain hidden enc os where
    s: "batch_search m return_loss max_length (concat ?b) hidden enc = Inr os"
    and b: "batch' = annotate label_name (map (\<lambda>seq. lemma_of m (fst seq)) os) ?b"
    by (auto simp: predict_batch_def Let_def split: sum.splits prod.splits)
  have "length os = length (concat ?b)" using s by (rule batch_search_length)
  also have "\<dots> = length (concat batch)" by (simp add: length_concat comp_def)
  finally have "length (concat batch) \<le> length (map (\<lambda>seq. lemma_of m (fst seq)) os)" by simp
  then show ?thesis unfolding b by (rule annotate_annotated)
qed

lemma list_all2_concat:
  "list_all2 (list_all2 R) xss yss \<Longrightarrow> list_all2 R (concat xss) (concat yss)"
  by (induction xss yss rule: list_all2_induct) (auto intro: list_all2_appendI)

lemma concat_chunks:
  "concat (map (\<lambda>i. take k (drop (i * k) xs)) [0..<n]) = take (n * k) xs"
proof (induction n)
  case 0
  then show ?case by simp
next
  case (Suc n)
  have "Suc n * k = n * k + k" by simp
  then have "take (Suc n * k) xs = take (n * k) xs @ take k (drop (n * k) xs)"
    by (simp only: take_add)
  then show ?case using Suc by simp
qed

lemma data_loader_concat:
  assumes "data_loader k xs = Inr bs"
  shows "concat bs = xs"
proof -
  have k: "0 < k" and bs: "bs = map (\<lambda>i. take k (drop (i * k) xs)) [0..<(length xs + k - 1) div k]"
    using assms by (auto simp: data_loader_def split: if_splits)
  have "length xs \<le> ((length xs + k - 1) div k) * k"
  proof -
    have "length xs + k - 1 < ((length xs + k - 1) div k) * k + k"
      using k by (metis add.commute div_mult_mod_eq mod_less_divisor nat_add_left_cancel_less mult.commute)
    then show ?thesis using k by linarith
  qed
  then show ?thesis unfolding bs concat_chunks by simp
qed

lemma merge_sentences_rel:
  assumes "list_all2 R (filter (\<lambda>s. length s > 0) ss) ps" and "R [] []"
  shows "list_all2 R ss (merge_sentences ss ps)"
  using assms(1)
proof (induction ss arbitrary: ps)
  case Nil
  then show ?case by simp
next
  case (Cons s ss)
  show ?case
  proof (cases "length s > 0")
    case True
    then obtain p ps' where ps: "ps = p # ps'" and rp: "R s p"
      and rest: "list_all2 R (filter (\<lambda>s. length s > 0) ss) ps'"
      using Cons.prems by (auto simp: list_all2_Cons1)
    show ?thesis using True rp Cons.IH[OF rest] by (simp add: ps)
  next
    case False
    then have "s = []" by simp
    then show ?thesis using Cons.IH[of ps] Cons.prems assms(2) by simp
  qed
qed

lemma concat_filter_nonempty: "concat (filter (\<lambda>s. length s > 0) ss) = concat ss"
  by (induction ss) auto

lemma predict_result:
  assumes "predict m ss label_name k return_loss = (m', Inr (ss', r))"
  shows "list_all2 (annotated label_name) ss ss'"
    and "(\<forall>s\<in>set ss. s = []) \<longrightarrow> r = ReturnSentences []"
    and "\<not> (\<forall>s\<in>set ss. s = []) \<longrightarrow> return_loss \<longrightarrow> (\<exists>l. r = ReturnLoss l (length (concat ss)))"
    and "\<not> (\<forall>s\<in>set ss. s = []) \<longrightarrow> \<not> return_loss \<longrightarrow> r = ReturnNone"
proof -
  define self where "self = (if beam_size m = 1 then m\<lparr>batching_in_rnn := False\<rparr> else m)"
  define ne where "ne = filter (\<lambda>sentence. length sentence > 0) ss"
  define ml where "ml = (if \<not> dependent_on_input self then max_sequence_length self
     else Max (set (map (\<lambda>token. length (token_text token) + 1) (concat ne))))"
  define run where "run = (\<lambda>bs. if batching_in_rnn self
     then run_all (predict_batch self label_name return_loss ml) bs
     else run_all (run_all (run_all (predict_token self label_name return_loss ml))) bs)"
  have P: "predict m ss label_name k return_loss =
     (self, if length ne = 0 then Inr (ss, ReturnSentences ne)
            else case data_loader k ne of
                   Inl e \<Rightarrow> Inl e
                 | Inr dl \<Rightarrow>
                     (case run dl of
                        Inl e \<Rightarrow> Inl e
                      | Inr (processed, overall_loss) \<Rightarrow>
                          Inr (merge_sentences ss (concat processed),
                               if return_loss then ReturnLoss overall_loss (length (concat ne))
                               else ReturnNone)))"
    unfolding predict_def Let_def self_def ne_def ml_def run_def by (rule refl)
  have e: "(\<forall>s\<in>set ss. s = []) \<longleftrightarrow> ne = []"
    by (auto simp: ne_def filter_empty_conv)
  have R0: "annotated label_name [] []" by (simp add: annotated_def)
  have cn: "concat ne = concat ss" unfolding ne_def by (rule concat_filter_nonempty)
  show "list_all2 (annotated label_name) ss ss'"
  proof (cases "ne = []")
    case True
    then have "ss' = ss" using assms unfolding P by simp
    moreover have "\<And>i. i < length ss \<Longrightarrow> ss ! i = []" using True e by simp
    ultimately show ?thesis by (simp add: list_all2_conv_all_nth R0)
  next
    case False
    from assms[unfolded P] False obtain bs where dl: "data_loader k ne = Inr bs"
      by (cases "data_loader k ne") auto
    from assms[unfolded P] False dl obtain processed l where run: "run bs = Inr (processed, l)"
      and ss': "ss' = merge_sentences ss (concat processed)"
      by (cases "run bs") auto
    have "list_all2 (list_all2 (annotated label_name)) bs processed"
    proof (cases "batching_in_rnn self")
      case True
      then have "run_all (predict_batch self label_name return_loss ml) bs = Inr (processed, l)"
        using run by (simp add: run_def)
      then have "list_all2 (\<lambda>x y. \<exists>l'. predict_batch self label_name return_loss ml x = Inr (y, l')) bs processed"
        by (rule run_all_Inr)
      then show ?thesis by (rule list_all2_mono) (auto dest: batch_annotated)
    next
      case False
      then have "run_all (run_all (run_all (predict_token self label_name return_loss ml))) bs = Inr (processed, l)"
        using run by (simp add: run_def)
      then have "list_all2 (\<lambda>x y. \<exists>l'. run_all (run_all (predict_token self label_name return_loss ml)) x = Inr (y, l')) bs processed"
        by (rule run_all_Inr)
      then show ?thesis by (rule list_all2_mono) (auto dest: batch_annotated_tokens)
    qed
    then have "list_all2 (annotated label_name) (concat bs) (concat processed)"
      by (rule list_all2_concat)
    then have "list_all2 (annotated label_name) (filter (\<lambda>s. length s > 0) ss) (concat processed)"
      using data_loader_concat[OF dl] by (simp add: ne_def)
    then show ?thesis unfolding ss' by (rule merge_sentences_rel) (rule R0)
  qed
  show "(\<forall>s\<in>set ss. s = []) \<longrightarrow> r = ReturnSentences []"
    using assms unfolding e P by auto
  show "\<not> (\<forall>s\<in>set ss. s = []) \<longrightarrow> return_loss \<longrightarrow> (\<exists>l. r = ReturnLoss l (length (concat ss)))"
    using assms unfolding e P cn by (auto split: sum.splits prod.splits if_splits)
  show "\<not> (\<forall>s\<in>set ss. s = []) \<longrightarrow> \<not> return_loss \<longrightarrow> r = ReturnNone"
    using assms unfolding e P by (auto split: sum.splits prod.splits if_splits)
qed

subsection \<open>The small model with a beam of two, evaluated\<close>

lemma beam_fields [simp]:
  "beam_size (toy_model_beam l) = 2" "dummy_index (toy_model_beam l) = 1" "start_index (toy_model_beam l) = 2"
  "end_index (toy_model_beam l) = 3" "dict_len (toy_model_beam l) = 7" "use_attention (toy_model_beam l) = False"
  "encoder_embeddings (toy_model_beam l) = False" "bi_encoding (toy_model_beam l) = False"
  "start_symbol (toy_model_beam l) = True" "end_symbol (toy_model_beam l) = False"
  "dependent_on_input (toy_model_beam l) = True" "batching_in_rnn (toy_model_beam l) = True"
  "encode_characters (toy_model_beam l) = True" "rnn_layers (toy_model_beam l) = 1"
  "rnn_hidden_size (toy_model_beam l) = 1"
  "padding_in_front_for_encoder (toy_model_beam l) = False"
  "character_decoder (toy_model_beam l) = (\<lambda>v. l)"
  "topk_order (toy_model_beam l) = (\<lambda>xs. [0..<length xs])"
  "topk_order_scores (toy_model_beam l) = (\<lambda>xs. [0..<length xs])"
  "label_type (toy_model_beam l) = ''lemma''"
  "emb_to_hidden (toy_model_beam l) = (\<lambda>v. v)"
  "encoder_rnn (toy_model_beam l) = (\<lambda>xs. (xs, [[0]]))"
  "encoder_character_embedding (toy_model_beam l) = (\<lambda>i. [real i])"
  "get_idx_for_item (toy_model_beam l) = (\<lambda>c. if c = CHR ''a'' then 4 else if c = CHR ''b'' then 5
                                else if c = CHR ''c'' then 6 else 0)"
  "get_item_for_index (toy_model_beam l) = (\<lambda>i. [''<unk>'', ''<>'', ''<S>'', ''<E>'', ''a'', ''b'', ''c''] ! i)"
  by (simp_all add: toy_model_beam_def toy_model_def)

lemma beam_decode_row [simp]: "decode_row (toy_model_beam l) i h enc = (l, h)"
  by (simp add: decode_row_def toy_model_beam_def toy_model_def Let_def split: option.splits)

lemma beam_encode:
  "encode (toy_model_beam l) [[word ''a'']] = Inr ([[[0]]], Some [[[2], [4]]])"
  by (simp add: encode_def words_to_char_indices_def char_row_def encode_row_def Let_def)

lemma beam_topk_end:
  "topk_probs (toy_model_beam toy_logits_end) (mask_probs (toy_model_beam toy_logits_end) (softmax toy_logits_end))
     = Inr [(5/14, 3), (3/14, 5)]"
  by (simp add: topk_probs_def topk_def softmax_toy_logits_end mask_probs_def upt7 sorted_desc_def)


lemma ln_cmp: "ln (3/14) < ln (5/14::real)" "ln (2/14) < ln (3/14::real)" "ln (2/14) < ln (5/14::real)"
  by simp_all



lemma toy_step_end:
  "beam_step (toy_model_beam toy_logits_end) False [] None (Suc 0) (Suc 0) (\<lparr>sequences = [[3], [5]], scores = [Fin (ln (5 / 14)), Fin (ln (3 / 14))], leading_indices = [3, 5], hidden_states_beam = [[[0]], [[0]]], losses = []\<rparr>, [[]]) = Inr (\<lparr>sequences = [[3, 5], [5, 5]], scores = [Fin (ln (5 / 14) + ln (3 / 14)), Fin (2 * ln (3 / 14))], leading_indices = [5, 5], hidden_states_beam = [[[0]], [[0]]], losses = []\<rparr>, [[([3], Fin (ln (5 / 14)), 0), ([5], Fin ((ln (3 / 14) + ln (5 / 14)) / 2), 0)]])"
proof -
  have d: "decode (toy_model_beam toy_logits_end) (leading_indices \<lparr>sequences = [[3], [5]], scores = [Fin (ln (5 / 14)), Fin (ln (3 / 14))], leading_indices = [3, 5], hidden_states_beam = [[[0]], [[0]]], losses = []\<rparr>) (hidden_states_beam \<lparr>sequences = [[3], [5]], scores = [Fin (ln (5 / 14)), Fin (ln (3 / 14))], leading_indices = [3, 5], hidden_states_beam = [[[0]], [[0]]], losses = []\<rparr>) None = Inr [(toy_logits_end, [[0]]), (toy_logits_end, [[0]])]"
    by (simp add: decode_def)
  have t: "sequence_err (map (topk_probs (toy_model_beam toy_logits_end)) (map (\<lambda>v. mask_probs (toy_model_beam toy_logits_end) (softmax v)) (map fst [(toy_logits_end, [[0]]), (toy_logits_end, [[0]])]))) = Inr [[(5 / 14, 3), (3 / 14, 5)], [(5 / 14, 3), (3 / 14, 5)]]"
    by (simp add: beam_topk_end)
  have sa: "fold (set_aside (toy_model_beam toy_logits_end) False [] (Suc 0) \<lparr>sequences = [[3], [5]], scores = [Fin (ln (5 / 14)), Fin (ln (3 / 14))], leading_indices = [3, 5], hidden_states_beam = [[[0]], [[0]]], losses = []\<rparr> (map fst [(toy_logits_end, [[0]]), (toy_logits_end, [[0]])]))
              (end_positions (end_index (toy_model_beam toy_logits_end)) (map (map snd) [[(5 / 14, 3), (3 / 14, 5)], [(5 / 14, 3), (3 / 14, 5)]]))
              ([[]], map (map (torch_log \<circ> fst)) [[(5 / 14, 3), (3 / 14, 5)], [(5 / 14, 3), (3 / 14, 5)]]) = ([[([3], Fin (ln (5 / 14)), 0), ([5], Fin ((ln (3 / 14) + ln (5 / 14)) / 2), 0)]], [[MInf, Fin (ln (3 / 14))], [MInf, Fin (ln (3 / 14))]])"
    by (simp add: end_positions_def set_aside_def torch_log_def Let_def)
  have b: "sequence_err (map (topk (topk_order_scores (toy_model_beam toy_logits_end)) lp_key (beam_size (toy_model_beam toy_logits_end)))
             (view (Suc 0) (beam_size (toy_model_beam toy_logits_end) * beam_size (toy_model_beam toy_logits_end)) (concat (hypothesis_scores \<lparr>sequences = [[3], [5]], scores = [Fin (ln (5 / 14)), Fin (ln (3 / 14))], leading_indices = [3, 5], hidden_states_beam = [[[0]], [[0]]], losses = []\<rparr> (snd ([[([3], Fin (ln (5 / 14)), 0), ([5], Fin ((ln (3 / 14) + ln (5 / 14)) / 2), 0)]], [[MInf, Fin (ln (3 / 14))], [MInf, Fin (ln (3 / 14))]])))))) = Inr [[(Fin (ln (5 / 14) + ln (3 / 14)), 1), (Fin (2 * ln (3 / 14)), 3)]]"
    using ln_cmp by (simp add: view_def hypothesis_scores_def topk_def sorted_desc_def upt_rec)
  have nb: "next_beam (toy_model_beam toy_logits_end) False [] (Suc 0) \<lparr>sequences = [[3], [5]], scores = [Fin (ln (5 / 14)), Fin (ln (3 / 14))], leading_indices = [3, 5], hidden_states_beam = [[[0]], [[0]]], losses = []\<rparr> [(toy_logits_end, [[0]]), (toy_logits_end, [[0]])] (map (map snd) [[(5 / 14, 3), (3 / 14, 5)], [(5 / 14, 3), (3 / 14, 5)]]) (snd ([[([3], Fin (ln (5 / 14)), 0), ([5], Fin ((ln (3 / 14) + ln (5 / 14)) / 2), 0)]], [[MInf, Fin (ln (3 / 14))], [MInf, Fin (ln (3 / 14))]])) (map (map snd) [[(Fin (ln (5 / 14) + ln (3 / 14)), 1), (Fin (2 * ln (3 / 14)), 3)]]) = \<lparr>sequences = [[3, 5], [5, 5]], scores = [Fin (ln (5 / 14) + ln (3 / 14)), Fin (2 * ln (3 / 14))], leading_indices = [5, 5], hidden_states_beam = [[[0]], [[0]]], losses = []\<rparr>"
    by (simp add: next_beam_def Let_def)
  show ?thesis
    by (simp only: beam_step_def prod.case d sum.case t Let_def sa b nb fst_conv)
qed


lemma toy_batch_search_end:
  "batch_search (toy_model_beam toy_logits_end) False 2 [word ''a''] [[[0]]] (Some [[[2], [4]]]) = Inr [([3], Fin (ln (5 / 14)), 0)]"
proof -
  have d: "decode (toy_model_beam toy_logits_end) (replicate (length [word ''a'']) (start_index (toy_model_beam toy_logits_end))) [[[0]]] (Some [[[2], [4]]]) = Inr [(toy_logits_end, [[0]])]"
    by (simp add: decode_def)
  have t: "sequence_err (map (topk_probs (toy_model_beam toy_logits_end)) (map (\<lambda>v. mask_probs (toy_model_beam toy_logits_end) (softmax v)) (map fst [(toy_logits_end, [[0]])]))) = Inr [[(5 / 14, 3), (3 / 14, 5)]]"
    by (simp add: beam_topk_end)
  have fb: "first_beam (toy_model_beam toy_logits_end) False [] [(toy_logits_end, [[0]])] [[(5 / 14, 3), (3 / 14, 5)]] = \<lparr>sequences = [[3], [5]], scores = [Fin (ln (5 / 14)), Fin (ln (3 / 14))], leading_indices = [3, 5], hidden_states_beam = [[[0]], [[0]]], losses = []\<rparr>"
    by (simp add: first_beam_def torch_log_def eval_nat_numeral)
  have benc: "(if use_attention (toy_model_beam toy_logits_end)
               then map_option (\<lambda>encs. concat (map (replicate (beam_size (toy_model_beam toy_logits_end))) encs)) (Some [[[2], [4]]])
               else None) = None"
    by simp
  have loop: "beam_loop (toy_model_beam toy_logits_end) False [] None (length [word ''a'']) [1..<2]
                (\<lparr>sequences = [[3], [5]], scores = [Fin (ln (5 / 14)), Fin (ln (3 / 14))], leading_indices = [3, 5], hidden_states_beam = [[[0]], [[0]]], losses = []\<rparr>, replicate (length [word ''a'']) []) = Inr (\<lparr>sequences = [[3, 5], [5, 5]], scores = [Fin (ln (5 / 14) + ln (3 / 14)), Fin (2 * ln (3 / 14))], leading_indices = [5, 5], hidden_states_beam = [[[0]], [[0]]], losses = []\<rparr>, [[([3], Fin (ln (5 / 14)), 0), ([5], Fin ((ln (3 / 14) + ln (5 / 14)) / 2), 0)]])"
    by (simp add: upt_rec toy_step_end)
  have au: "append_unfinished (toy_model_beam toy_logits_end) False 2 (length [word ''a'']) \<lparr>sequences = [[3, 5], [5, 5]], scores = [Fin (ln (5 / 14) + ln (3 / 14)), Fin (2 * ln (3 / 14))], leading_indices = [5, 5], hidden_states_beam = [[[0]], [[0]]], losses = []\<rparr> [[([3], Fin (ln (5 / 14)), 0), ([5], Fin ((ln (3 / 14) + ln (5 / 14)) / 2), 0)]] = Inr [[([3], Fin (ln (5 / 14)), 0), ([5], Fin ((ln (3 / 14) + ln (5 / 14)) / 2), 0)]]"
    using ln_cmp by (simp add: append_unfinished_def view_def topk_def sorted_desc_def)
  have bc: "sequence_err (map best_candidate [[([3], Fin (ln (5 / 14)), 0), ([5], Fin ((ln (3 / 14) + ln (5 / 14)) / 2), 0)]]) = Inr [([3], Fin (ln (5 / 14)), 0)]"
    using ln_cmp by (simp add: best_candidate_def sorted_desc_def)
  show ?thesis
    by (simp only: batch_search_def Let_def d sum.case t if_False fb benc loop prod.case au bc)
qed

lemma toy_predict_batch_end:
  "predict_batch (toy_model_beam toy_logits_end) ''predicted'' False 2 [[word ''a'']] =
     Inr ([[add_tag ''predicted'' ''<E>'' (word ''a'')]], 0)"
  by (simp add: predict_batch_def beam_encode toy_batch_search_end lemma_of_def)

subsection \<open>What a prediction returns, and the first decoding step\<close>




text \<open>
  C10: the first decoding step does not look for the end symbol. Every one of the
  \<open>beam_size\<close> best first characters starts a live hypothesis, the end symbol included, in
  the per-token search and in the batched one; with \<open>max_length = 1\<close> the per-token search
  returns the end symbol alone when it is the most probable first character. On the small
  model whose output layer prefers the end symbol, the lemma predicted for the word
  \<open>a\<close> is the string \<^verbatim>\<open><E>\<close>, without batching (beam of one) and with it (beam
  of two).
\<close>

theorem first_step_keeps_end_symbol:
  "(\<forall>p. (p, end_index m) \<in> set topk_out \<longrightarrow>
        ([end_index m], hidden_state, torch_log p, loss) \<in> set (first_hypotheses hidden_state loss topk_out)) \<and>
   (\<forall>p. (p, end_index m) \<in> set (concat topk_outs) \<longrightarrow>
        [end_index m] \<in> set (sequences (first_beam m return_loss target dec topk_outs))) \<and>
   (\<forall>p rest. \<not> (use_attention m \<and> enc = None) \<longrightarrow>
        topk_probs m (mask_probs m (softmax (fst (decode_row m (start_index m) hidden0 enc))))
          = Inr ((p, end_index m) # rest) \<longrightarrow>
        token_search m False 1 t hidden0 enc = Inr ([end_index m], lp_div (torch_log p) 1, 0)) \<and>
   snd (predict (toy_model toy_logits_end) [[word ''a'']] ''predicted'' 16 False) =
     Inr ([[add_tag ''predicted'' ''<E>'' (word ''a'')]], ReturnNone) \<and>
   snd (predict (toy_model_beam toy_logits_end) [[word ''a'']] ''predicted'' 16 False) =
     Inr ([[add_tag ''predicted'' ''<E>'' (word ''a'')]], ReturnNone)"
proof (intro conjI allI impI)
  fix p assume "(p, end_index m) \<in> set topk_out"
  then show "([end_index m], hidden_state, torch_log p, loss) \<in> set (first_hypotheses hidden_state loss topk_out)"
    by (force simp: first_hypotheses_def)
next
  fix p assume "(p, end_index m) \<in> set (concat topk_outs)"
  then show "[end_index m] \<in> set (sequences (first_beam m return_loss target dec topk_outs))"
    by (force simp: first_beam_def)
next
  fix p rest
  assume "\<not> (use_attention m \<and> enc = None)"
    and "topk_probs m (mask_probs m (softmax (fst (decode_row m (start_index m) hidden0 enc))))
          = Inr ((p, end_index m) # rest)"
  then show "token_search m False 1 t hidden0 enc = Inr ([end_index m], lp_div (torch_log p) 1, 0)"
    by (cases "decode_row m (start_index m) hidden0 enc")
       (simp add: token_search_def first_hypotheses_def finish_token_def best_candidate_def
          sorted_desc_def)
next
  show "snd (predict (toy_model toy_logits_end) [[word ''a'']] ''predicted'' 16 False) =
     Inr ([[add_tag ''predicted'' ''<E>'' (word ''a'')]], ReturnNone)"
    by (simp add: predict_def Let_def data_loader_def toy_predict_token_end[unfolded numeral_2_eq_2])
next
  show "snd (predict (toy_model_beam toy_logits_end) [[word ''a'']] ''predicted'' 16 False) =
     Inr ([[add_tag ''predicted'' ''<E>'' (word ''a'')]], ReturnNone)"
    by (simp add: predict_def Let_def data_loader_def toy_predict_batch_end[unfolded numeral_2_eq_2])
qed

theorem first_step_keeps_end_symbol_witness:
  "(5 / 14, end_index (toy_model toy_logits_end)) \<in> set [(5 / 14, 3), (3 / 14, 5)] \<and>
   ([3], [[0]], torch_log (5 / 14), 0) \<in> set (first_hypotheses [[0]] 0 [(5 / 14, 3), (3 / 14, 5)]) \<and>
   [3] \<in> set (sequences (first_beam (toy_model toy_logits_end) False [] [] [[(5 / 14, 3), (3 / 14, 5)]])) \<and>
   token_search (toy_model toy_logits_end) False 1 (word ''a'') [[0]] None =
     Inr ([3], lp_div (torch_log (5 / 14)) 1, 0)"
proof -
  have t: "topk_probs (toy_model toy_logits_end)
             (mask_probs (toy_model toy_logits_end)
               (softmax (fst (decode_row (toy_model toy_logits_end) (start_index (toy_model toy_logits_end)) [[0]] None))))
           = Inr ((5 / 14, end_index (toy_model toy_logits_end)) # [])"
    by (simp add: toy_topk[of _ None "[]" "[]" MInf 0] toy_best_end)
  have u: "\<not> (use_attention (toy_model toy_logits_end) \<and> (None :: vec list option) = None)" by simp
  note T = first_step_keeps_end_symbol[of "toy_model toy_logits_end" "[(5 / 14, 3), (3 / 14, 5)]" "[[0]]" 0
      "[[(5 / 14, 3), (3 / 14, 5)]]" False "[]" "[]" None "[[0]]" "word ''a''"]
  have m1: "(5 / 14, end_index (toy_model toy_logits_end)) \<in> set [(5 / 14, 3), (3 / 14, 5)]" by simp
  have m2: "(5 / 14, end_index (toy_model toy_logits_end)) \<in> set (concat [[(5 / 14, 3), (3 / 14, 5)]])" by simp
  have c1: "([end_index (toy_model toy_logits_end)], [[0]], torch_log (5 / 14), 0)
              \<in> set (first_hypotheses [[0]] 0 [(5 / 14, 3), (3 / 14, 5)])"
    using T m1 by blast
  have c2: "[end_index (toy_model toy_logits_end)]
              \<in> set (sequences (first_beam (toy_model toy_logits_end) False [] [] [[(5 / 14, 3), (3 / 14, 5)]]))"
    using T m2 by blast
  have c3: "token_search (toy_model toy_logits_end) False 1 (word ''a'') [[0]] None =
              Inr ([end_index (toy_model toy_logits_end)], lp_div (torch_log (5 / 14)) 1, 0)"
    using T t u by blast
  show ?thesis using m1 c1 c2 c3 by simp
qed

text \<open>
  C6 at a model whose alphabet leaves fewer than \<open>beam_size\<close> symbols unmasked: with the
  seven symbols of the small model and a beam of six, the six chosen first characters
  include the padding symbol with its masked probability \<open>-1\<close>, whose logarithm is not
  a number.
\<close>

theorem masked_symbol_is_selected:
  "topk (topk_order ((toy_model toy_logits)\<lparr>beam_size := 6\<rparr>)) id
        (beam_size ((toy_model toy_logits)\<lparr>beam_size := 6\<rparr>))
        (mask_probs ((toy_model toy_logits)\<lparr>beam_size := 6\<rparr>) (softmax toy_logits)) =
     Inr [(5 / 14, 4), (3 / 14, 5), (1 / 7, 3), (1 / 14, 0), (1 / 14, 6), (- 1, 1)] \<and>
   dummy_index ((toy_model toy_logits)\<lparr>beam_size := 6\<rparr>) = 1 \<and>
   snd (predict ((toy_model toy_logits)\<lparr>beam_size := 6\<rparr>) [[word ''a'']] ''predicted'' 16 False) =
     Inl NonFinite"
  by (simp add: topk_def softmax_toy_logits mask_probs_def upt7 sorted_desc_def
      predict_def Let_def data_loader_def predict_token_def token_hidden_def token_search_def
      words_to_char_indices_def char_row_def decode_row_def topk_probs_def toy_model_def word_def
      remove_labels_def)

end
